theory Spec2Isabelle
  imports Complex_Main "HOL-Library.AList"
begin

section \<open>The automation page of the IoT dashboard\<close>

text \<open>
  This theory embeds the rule engine of \<^verbatim>\<open>src/pages/Automation.tsx\<close>: the rule
  and event records, \<^verbatim>\<open>compareValues\<close>, \<^verbatim>\<open>resolveMetricValue\<close>,
  \<^verbatim>\<open>writeLocal\<close>, the merge of \<^verbatim>\<open>loadRules\<close>, the evaluation cycle
  \<^verbatim>\<open>evaluate\<close>, \<^verbatim>\<open>remover\<close> and \<^verbatim>\<open>salvar\<close>.

  Conventions of the embedding.
  \<^item> A JavaScript string is a \<^typ>\<open>string\<close>, read as a sequence of code units below 256.
  \<^item> An optional field (\<^verbatim>\<open>f?: T\<close>) is a \<^typ>\<open>'a option\<close>; \<^verbatim>\<open>undefined\<close> is \<^term>\<open>None\<close>.
  \<^item> A JavaScript number that carries a measurement or a threshold is a \<open>number\<close>: a finite
    value (a double denotes a real, and the comparison of two finite doubles is the comparison
    of the reals they denote), one of the two infinities, or NaN. No arithmetic is done on
    these numbers, only comparisons.
  \<^item> Epoch-millisecond timestamps are \<^typ>\<open>int\<close>; \<^verbatim>\<open>!ts\<close> is \<open>ts = 0\<close>.
  \<^item> A plain object used as a dictionary in iteration order (\<^verbatim>\<open>Record<string, unknown>\<close>
    read through \<^verbatim>\<open>Object.entries\<close>) and a \<^verbatim>\<open>Map\<close> are association lists; only own
    properties are modelled.
  \<^item> The record fields \<^verbatim>\<open>id\<close> and \<^verbatim>\<open>type\<close> of a rule are called \<open>ident\<close> and \<open>kind\<close>;
    the fields of an event carry the prefix \<open>ev_\<close>.
\<close>

subsection \<open>Numbers\<close>

datatype number = Fin real | PosInf | NegInf | NaN

fun isFinite :: "number \<Rightarrow> bool" where
  "isFinite (Fin _) = True"
| "isFinite _ = False"

fun isNaN :: "number \<Rightarrow> bool" where
  "isNaN NaN = True"
| "isNaN _ = False"

text \<open>The relational operators of JavaScript on numbers: every comparison with NaN is false.\<close>

fun num_lt :: "number \<Rightarrow> number \<Rightarrow> bool" where
  "num_lt NaN _ = False"
| "num_lt _ NaN = False"
| "num_lt (Fin x) (Fin y) = (x < y)"
| "num_lt (Fin _) PosInf = True"
| "num_lt (Fin _) NegInf = False"
| "num_lt PosInf _ = False"
| "num_lt NegInf NegInf = False"
| "num_lt NegInf _ = True"

fun num_strict_eq :: "number \<Rightarrow> number \<Rightarrow> bool" where
  "num_strict_eq NaN _ = False"
| "num_strict_eq _ NaN = False"
| "num_strict_eq a b = (a = b)"

definition num_gt :: "number \<Rightarrow> number \<Rightarrow> bool" where
  "num_gt a b = num_lt b a"

definition num_le :: "number \<Rightarrow> number \<Rightarrow> bool" where
  "num_le a b = (num_lt a b \<or> num_strict_eq a b)"

definition num_ge :: "number \<Rightarrow> number \<Rightarrow> bool" where
  "num_ge a b = num_le b a"

subsection \<open>Data model\<close>

datatype Operador = Gt | Lt | Ge | Le | Eq | Ne

datatype AutomationType = Alert | Schedule

record Sched =
  hh :: int
  mm :: int

record Automacao =
  ident :: string
  name :: string
  description :: "string option"
  enabled :: bool
  kind :: AutomationType
  espId :: string
  metricKey :: "string option"
  operador :: "Operador option"
  threshold :: "number option"
  schedule :: "Sched option"
  lastTriggered :: "int option"

record Evento =
  ev_id :: string
  ev_ts :: int
  ev_espId :: string
  ev_name :: string
  ev_text :: string

definition AUTOMATIONS_KEY :: string where
  "AUTOMATIONS_KEY = ''iot2025::automations''"

definition EVENTS_KEY :: string where
  "EVENTS_KEY = ''iot2025::automation-events''"

text \<open>The text of an operator inside a template literal.\<close>

fun operadorText :: "Operador \<Rightarrow> string" where
  "operadorText Gt = ''>''"
| "operadorText Lt = ''<''"
| "operadorText Ge = ''>=''"
| "operadorText Le = ''<=''"
| "operadorText Eq = ''==''"
| "operadorText Ne = ''!=''"

subsection \<open>compareValues\<close>

fun compareValues :: "number \<Rightarrow> Operador \<Rightarrow> number \<Rightarrow> bool" where
  "compareValues v Gt t = num_gt v t"
| "compareValues v Lt t = num_lt v t"
| "compareValues v Ge t = num_ge v t"
| "compareValues v Le t = num_le v t"
| "compareValues v Eq t = num_strict_eq v t"
| "compareValues v Ne t = (\<not> num_strict_eq v t)"

subsection \<open>resolveMetricValue\<close>

text \<open>\<^verbatim>\<open>s.split(".")\<close>: the segments between dots; never empty.\<close>

fun split_dot :: "string \<Rightarrow> string list" where
  "split_dot [] = [[]]"
| "split_dot (c # cs) =
     (if c = CHR ''.'' then [] # split_dot cs
      else (case split_dot cs of
              [] \<Rightarrow> [[c]]
            | w # ws \<Rightarrow> (c # w) # ws))"

text \<open>\<^verbatim>\<open>key.split(".").slice(-1)[0] ?? key\<close>: the last segment; the fallback to the whole
  key covers an empty segment list, which \<^verbatim>\<open>split\<close> never returns.\<close>

definition leafOf :: "string \<Rightarrow> string" where
  "leafOf key = (case rev (split_dot key) of [] \<Rightarrow> key | l # _ \<Rightarrow> l)"

text \<open>
  \<^verbatim>\<open>normalizeKey\<close> is imported from \<^verbatim>\<open>lib/readings-utils.ts\<close>; it is a parameter
  \<open>nk\<close> here, so what is proved holds for every normalization. The mapping \<open>flat\<close> lists
  the entries in the order \<^verbatim>\<open>Object.entries\<close> yields them, with distinct keys.
\<close>

definition resolveMetricValue ::
  "(string \<Rightarrow> string) \<Rightarrow> (string \<times> 'v) list \<Rightarrow> string option \<Rightarrow> 'v option" where
  "resolveMetricValue nk flat key =
     (case key of
        None \<Rightarrow> None
      | Some k \<Rightarrow>
          if k = [] then None
          else if k \<in> fst ` set flat then map_of flat k
          else
            (let leaf = leafOf k;
                 normalized = nk leaf;
                 matched = find (\<lambda>(candidate, _). nk (leafOf candidate) = normalized) flat
             in map_option snd matched))"

subsection \<open>The environment of the page\<close>

text \<open>
  The helpers imported from \<^verbatim>\<open>lib/readings-utils.ts\<close> (\<^verbatim>\<open>normalizeKey\<close>,
  \<^verbatim>\<open>numericValue\<close>, \<^verbatim>\<open>pickTimestamp\<close>, \<^verbatim>\<open>extractPayloadMaps\<close>,
  \<^verbatim>\<open>formatClock\<close>) are defined outside \<^verbatim>\<open>Automation.tsx\<close>; the evaluator takes them as
  the fields of an environment, together with the built-ins it calls: the local hour and minute
  of \<^verbatim>\<open>new Date(ts)\<close>, the conversion of a number and of a raw value to a string, and
  \<^verbatim>\<open>crypto.randomUUID\<close>, read as the \<open>n\<close>-th identifier drawn. \<open>'r\<close> is the type of a
  reading and \<open>'v\<close> the type of a raw value of the flattened mapping;
  \<open>extractPayloadMaps\<close> is the \<^verbatim>\<open>flat\<close> component of the result. The helpers are
  total functions: of the exceptions that the \<^verbatim>\<open>try\<close>/\<^verbatim>\<open>catch\<close> of the device loop
  catches, only those of the fetch are modelled.
\<close>

record ('r, 'v) env =
  normalizeKey :: "string \<Rightarrow> string"
  numericValue :: "'v option \<Rightarrow> number"
  pickTimestamp :: "'r \<Rightarrow> int \<Rightarrow> int"
  extractPayloadMaps :: "'r \<Rightarrow> (string \<times> 'v) list"
  formatClock :: "int \<Rightarrow> string"
  getHours :: "int \<Rightarrow> int"
  getMinutes :: "int \<Rightarrow> int"
  numberToString :: "number \<Rightarrow> string"
  rawToString :: "'v \<Rightarrow> string"
  randomUUID :: "nat \<Rightarrow> string"

text \<open>
  The browser: whether \<^verbatim>\<open>window\<close> exists, and whether \<^verbatim>\<open>localStorage.setItem\<close>
  accepts a value (it throws when the quota is exceeded).
\<close>

datatype stored = Rules "Automacao list" | Events "Evento list"

record browser =
  hasWindow :: bool
  setItemOk :: "string \<Rightarrow> stored \<Rightarrow> bool"

text \<open>The outcome of a \<^verbatim>\<open>fetch\<close> followed by \<^verbatim>\<open>response.json()\<close>: an exception, a
  response that is not OK, or the decoded body.\<close>

datatype 'a response = Threw | NotOk | Ok 'a

subsection \<open>The state of the component\<close>

record state =
  automacoes :: "Automacao list"
  eventos :: "Evento list"
  erro :: string
  abrirForm :: bool
  editId :: "string option"
  form :: Automacao
  loading :: bool
  lastSeen :: "string \<rightharpoonup> int"
  storage :: "string \<rightharpoonup> stored"
  warnings :: "string list"
  uuidCount :: nat

definition warn :: "string \<Rightarrow> state \<Rightarrow> state" where
  "warn msg st = st\<lparr>warnings := warnings st @ [msg]\<rparr>"

subsection \<open>writeLocal and the persistence effects\<close>

text \<open>\<^verbatim>\<open>!value || (Array.isArray(value) && !value.length)\<close>: both callers pass an array,
  which is truthy, so the test is whether the array is empty.\<close>

fun isEmptyArray :: "stored \<Rightarrow> bool" where
  "isEmptyArray (Rules rs) = (rs = [])"
| "isEmptyArray (Events es) = (es = [])"

definition writeLocal :: "browser \<Rightarrow> string \<Rightarrow> stored \<Rightarrow> state \<Rightarrow> state" where
  "writeLocal b key v st =
     (if \<not> hasWindow b then st
      else if isEmptyArray v then st\<lparr>storage := (storage st)(key := None)\<rparr>
      else if setItemOk b key v then st\<lparr>storage := (storage st)(key \<mapsto> v)\<rparr>
      else warn ''falha ao persistir'' st)"

text \<open>
  A state setter called with a fresh array re-renders the component, and the effect that
  depends on that piece of state then runs \<^verbatim>\<open>writeLocal\<close>. Every call of
  \<^verbatim>\<open>setAutomacoes\<close> and \<^verbatim>\<open>setEventos\<close> in the source passes a fresh array, so the
  setter and its effect are one step here.
\<close>

definition setAutomacoes ::
  "browser \<Rightarrow> (Automacao list \<Rightarrow> Automacao list) \<Rightarrow> state \<Rightarrow> state" where
  "setAutomacoes b f st =
     writeLocal b AUTOMATIONS_KEY (Rules (f (automacoes st))) (st\<lparr>automacoes := f (automacoes st)\<rparr>)"

definition setEventos ::
  "browser \<Rightarrow> (Evento list \<Rightarrow> Evento list) \<Rightarrow> state \<Rightarrow> state" where
  "setEventos b f st =
     writeLocal b EVENTS_KEY (Events (take 200 (f (eventos st)))) (st\<lparr>eventos := f (eventos st)\<rparr>)"

subsection \<open>Truthiness helpers\<close>

text \<open>\<^verbatim>\<open>s || d\<close> on a string, and on an optional string.\<close>

definition strOr :: "string \<Rightarrow> string \<Rightarrow> string" where
  "strOr s d = (if s = [] then d else s)"

fun optStrOr :: "string option \<Rightarrow> string \<Rightarrow> string" where
  "optStrOr None d = d"
| "optStrOr (Some s) d = strOr s d"

text \<open>\<^verbatim>\<open>n || 0\<close> on an optional number.\<close>

fun orZero :: "int option \<Rightarrow> int" where
  "orZero None = 0"
| "orZero (Some t) = t"

text \<open>\<^verbatim>\<open>String.prototype.trim\<close> on code units below 256: tab, line feed, vertical tab,
  form feed, carriage return, space and no-break space are white space.\<close>

definition isWhiteSpace :: "char \<Rightarrow> bool" where
  "isWhiteSpace c = ((of_char c :: nat) \<in> {9, 10, 11, 12, 13, 32, 160})"

definition trim :: "string \<Rightarrow> string" where
  "trim s = rev (dropWhile isWhiteSpace (rev (dropWhile isWhiteSpace s)))"

subsection \<open>loadRules\<close>

text \<open>A rule as the backend sends it (\<^verbatim>\<open>any\<close> in the source, read at the types of the
  rule record); \<open>b_uid\<close> is the field \<^verbatim>\<open>_id\<close>.\<close>

record BackendRule =
  b_uid :: "string option"
  b_id :: "string option"
  b_name :: "string option"
  b_description :: "string option"
  b_enabled :: "bool option"
  b_type :: "AutomationType option"
  b_espId :: "string option"
  b_metricKey :: "string option"
  b_operador :: "Operador option"
  b_threshold :: "number option"
  b_schedule :: "Sched option"
  b_lastTriggered :: "int option"

text \<open>\<^verbatim>\<open>rule._id || rule.id\<close>, when one of them is a non-empty string.\<close>

definition backendId :: "BackendRule \<Rightarrow> string option" where
  "backendId rule =
     (case b_uid rule of
        Some s \<Rightarrow> if s \<noteq> [] then Some s
                  else (case b_id rule of Some t \<Rightarrow> if t \<noteq> [] then Some t else None | None \<Rightarrow> None)
      | None \<Rightarrow> (case b_id rule of Some t \<Rightarrow> if t \<noteq> [] then Some t else None | None \<Rightarrow> None))"

definition toAutomacao :: "string \<Rightarrow> BackendRule \<Rightarrow> Automacao" where
  "toAutomacao fresh rule =
     \<lparr> ident = (case backendId rule of Some i \<Rightarrow> i | None \<Rightarrow> fresh),
       name = optStrOr (b_name rule) [],
       description = b_description rule,
       enabled = (b_enabled rule \<noteq> Some False),
       kind = (case b_type rule of Some t \<Rightarrow> t | None \<Rightarrow> Alert),
       espId = optStrOr (b_espId rule) [],
       metricKey = b_metricKey rule,
       operador = b_operador rule,
       threshold = b_threshold rule,
       schedule = b_schedule rule,
       lastTriggered = b_lastTriggered rule \<rparr>"

text \<open>\<^verbatim>\<open>merged.set(rule.id, rule)\<close> on a \<^verbatim>\<open>Map\<close>: a known key keeps its position and
  takes the new value, a new key goes to the end.\<close>

definition mergeLocal :: "Automacao \<Rightarrow> (string \<times> Automacao) list \<Rightarrow> (string \<times> Automacao) list" where
  "mergeLocal rule merged = AList.update (ident rule) rule merged"

text \<open>One step of \<^verbatim>\<open>backendRules.forEach\<close>: the accumulator is the map and the number of
  identifiers drawn so far; an identifier is drawn only when the rule carries none.\<close>

definition mergeBackend ::
  "(nat \<Rightarrow> string) \<Rightarrow> BackendRule \<Rightarrow> (string \<times> Automacao) list \<times> nat
     \<Rightarrow> (string \<times> Automacao) list \<times> nat" where
  "mergeBackend uuid rule acc =
     (let automacao = toAutomacao (uuid (snd acc)) rule
      in (AList.update (ident automacao) automacao (fst acc),
          (if backendId rule = None then Suc (snd acc) else snd acc)))"

definition mergeRules ::
  "(nat \<Rightarrow> string) \<Rightarrow> nat \<Rightarrow> Automacao list \<Rightarrow> BackendRule list
     \<Rightarrow> (string \<times> Automacao) list \<times> nat" where
  "mergeRules uuid n locals backendRules =
     fold (mergeBackend uuid) backendRules (fold mergeLocal locals [], n)"

definition loadRules ::
  "('r, 'v) env \<Rightarrow> browser \<Rightarrow> BackendRule list response \<Rightarrow> state \<Rightarrow> state" where
  "loadRules e b resp st =
     (case resp of
        Threw \<Rightarrow> (warn ''Erro ao carregar regras do backend:'' st)\<lparr>loading := False\<rparr>
      | NotOk \<Rightarrow> st\<lparr>loading := False\<rparr>
      | Ok backendRules \<Rightarrow>
          (let merged = mergeRules (randomUUID e) (uuidCount st) (automacoes st) backendRules
           in (setAutomacoes b (\<lambda>_. map snd (fst merged)) (st\<lparr>uuidCount := snd merged\<rparr>))
                \<lparr>loading := False\<rparr>))"

subsection \<open>The evaluation cycle\<close>

text \<open>\<^verbatim>\<open>espAlvos\<close>: the devices of the enabled rules, through a \<^verbatim>\<open>Set\<close>, which keeps the
  order of first insertion.\<close>

definition setAdd :: "string \<Rightarrow> string list \<Rightarrow> string list" where
  "setAdd x s = (if x \<in> set s then s else s @ [x])"

definition espAlvos :: "Automacao list \<Rightarrow> string list" where
  "espAlvos rules =
     fold setAdd (map espId (filter (\<lambda>automation. enabled automation \<and> espId automation \<noteq> []) rules)) []"

text \<open>The variables one run of \<^verbatim>\<open>evaluate\<close> works on: its two locals, and the parts of the
  component it touches while looping (\<^verbatim>\<open>lastSeenRef.current\<close>, the identifiers drawn, the
  console).\<close>

record cycle =
  updates :: "(string \<times> int) list"
  novosEventos :: "Evento list"
  seen :: "string \<rightharpoonup> int"
  drawn :: nat
  warned :: "string list"

text \<open>\<^verbatim>\<open>novosEventos.push({id: crypto.randomUUID(), ts, espId, name, text})\<close> followed by
  \<^verbatim>\<open>updates.set(automation.id, ts)\<close>.\<close>

definition fire ::
  "('r, 'v) env \<Rightarrow> int \<Rightarrow> string \<Rightarrow> string \<Rightarrow> string \<Rightarrow> string \<Rightarrow> cycle \<Rightarrow> cycle" where
  "fire e ts device nm txt rid c =
     c\<lparr> novosEventos := novosEventos c @
           [\<lparr> ev_id = randomUUID e (drawn c), ev_ts = ts, ev_espId = device,
              ev_name = nm, ev_text = txt \<rparr>],
        updates := AList.update rid ts (updates c),
        drawn := Suc (drawn c) \<rparr>"

definition alertText :: "('r, 'v) env \<Rightarrow> Automacao \<Rightarrow> Operador \<Rightarrow> number \<Rightarrow> string \<Rightarrow> string" where
  "alertText e automation op th textValue =
     strOr (name automation) ''Automacao'' @ '' disparada: '' @
     optStrOr (metricKey automation) ''valor'' @ '' '' @ operadorText op @ '' '' @
     numberToString e th @ '' (valor '' @ textValue @ '')''"

definition scheduleText :: "('r, 'v) env \<Rightarrow> Automacao \<Rightarrow> int \<Rightarrow> string" where
  "scheduleText e automation ts =
     strOr (name automation) ''Agendamento'' @ '' executado as '' @ formatClock e ts"

text \<open>The body of \<^verbatim>\<open>for (const automation of ativos)\<close>.\<close>

definition evalRule ::
  "('r, 'v) env \<Rightarrow> int \<Rightarrow> string \<Rightarrow> (string \<times> 'v) list \<Rightarrow> Automacao \<Rightarrow> cycle \<Rightarrow> cycle" where
  "evalRule e ts device flat automation c =
     (if kind automation = Alert then
        (let rawValue = resolveMetricValue (normalizeKey e) flat (metricKey automation);
             num = numericValue e rawValue
         in case (threshold automation, operador automation) of
              (Some th, Some op) \<Rightarrow>
                if \<not> isFinite num then c
                else if compareValues num op th then
                  (let textValue =
                         (if isFinite num then numberToString e num
                          else (case rawValue of None \<Rightarrow> ''-'' | Some raw \<Rightarrow> rawToString e raw))
                   in fire e ts device (strOr (name automation) ''Automacao'')
                        (alertText e automation op th textValue) (ident automation) c)
                else c
            | _ \<Rightarrow> c)
      else
        (case schedule automation of
           None \<Rightarrow> c
         | Some s \<Rightarrow>
             if getHours e ts = hh s \<and> getMinutes e ts = mm s then
               (let previous = orZero (lastTriggered automation)
                in if previous = 0 \<or> ts - previous > 60000 then
                     fire e ts device (strOr (name automation) ''Agendamento'')
                       (scheduleText e automation ts) (ident automation) c
                   else c)
             else c))"

definition ruleLoop ::
  "('r, 'v) env \<Rightarrow> int \<Rightarrow> string \<Rightarrow> (string \<times> 'v) list \<Rightarrow> Automacao list \<Rightarrow> cycle \<Rightarrow> cycle" where
  "ruleLoop e ts device flat ativos c = fold (evalRule e ts device flat) ativos c"

text \<open>The body of \<^verbatim>\<open>for (const espId of espAlvos)\<close>, with its \<^verbatim>\<open>try\<close>/\<^verbatim>\<open>catch\<close>: a
  failed fetch is logged, a response that is not OK or has no payload is passed over.\<close>

definition evalDevice ::
  "('r, 'v) env \<Rightarrow> (string \<Rightarrow> 'r option response) \<Rightarrow> Automacao list \<Rightarrow> string \<Rightarrow> cycle \<Rightarrow> cycle" where
  "evalDevice e fetch rules device c =
     (case fetch device of
        Threw \<Rightarrow> c\<lparr>warned := warned c @ [''falha ao avaliar automacoes'']\<rparr>
      | NotOk \<Rightarrow> c
      | Ok None \<Rightarrow> c
      | Ok (Some payload) \<Rightarrow>
          (let ts = pickTimestamp e payload 0
           in if ts = 0 \<or> ts \<le> orZero (seen c device) then c
              else
                (let c1 = c\<lparr>seen := (seen c)(device \<mapsto> ts)\<rparr>;
                     flat = extractPayloadMaps e payload;
                     ativos = filter (\<lambda>automation. enabled automation \<and> espId automation = device) rules
                 in ruleLoop e ts device flat ativos c1)))"

definition deviceLoop ::
  "('r, 'v) env \<Rightarrow> (string \<Rightarrow> 'r option response) \<Rightarrow> Automacao list \<Rightarrow> string list \<Rightarrow> cycle \<Rightarrow> cycle" where
  "deviceLoop e fetch rules devices c = fold (evalDevice e fetch rules) devices c"

text \<open>The updater passed to \<^verbatim>\<open>setAutomacoes\<close> after the loop.\<close>

definition applyUpdates :: "(string \<times> int) list \<Rightarrow> Automacao list \<Rightarrow> Automacao list" where
  "applyUpdates ups current =
     map (\<lambda>automation.
            if map_of ups (ident automation) \<noteq> None
            then automation\<lparr>lastTriggered := map_of ups (ident automation)\<rparr>
            else automation) current"

text \<open>The updater passed to \<^verbatim>\<open>setEventos\<close> after the loop.\<close>

definition pushEventos :: "Evento list \<Rightarrow> Evento list \<Rightarrow> Evento list" where
  "pushEventos novos current = take 200 (rev novos @ current)"

definition startCycle :: "state \<Rightarrow> cycle" where
  "startCycle st =
     \<lparr> updates = [], novosEventos = [], seen = lastSeen st, drawn = uuidCount st,
       warned = warnings st \<rparr>"

text \<open>One run of \<^verbatim>\<open>evaluate\<close>; the effect that owns it returns at once when there is no
  target device.\<close>

definition evaluate ::
  "('r, 'v) env \<Rightarrow> browser \<Rightarrow> (string \<Rightarrow> 'r option response) \<Rightarrow> state \<Rightarrow> state" where
  "evaluate e b fetch st =
     (if espAlvos (automacoes st) = [] then st
      else
        (let c = deviceLoop e fetch (automacoes st) (espAlvos (automacoes st)) (startCycle st);
             st1 = st\<lparr>lastSeen := seen c, uuidCount := drawn c, warnings := warned c\<rparr>;
             st2 = (if updates c \<noteq> [] then setAutomacoes b (applyUpdates (updates c)) st1 else st1)
         in if novosEventos c \<noteq> [] then setEventos b (pushEventos (novosEventos c)) st2 else st2))"

subsection \<open>remover\<close>

text \<open>\<open>confirmed\<close> is the answer of \<^verbatim>\<open>window.confirm\<close>, \<open>resp\<close> the outcome of the
  \<^verbatim>\<open>DELETE\<close> request.\<close>

definition remover :: "browser \<Rightarrow> bool \<Rightarrow> unit response \<Rightarrow> Automacao \<Rightarrow> state \<Rightarrow> state" where
  "remover b confirmed resp automation st =
     (if \<not> confirmed then st
      else
        (let st1 = (case resp of
                      Threw \<Rightarrow> warn ''Erro ao remover regra do backend:'' st
                    | NotOk \<Rightarrow> warn ''Erro ao remover regra do backend:'' st
                    | Ok _ \<Rightarrow> st)
         in setAutomacoes b (filter (\<lambda>item. ident item \<noteq> ident automation)) st1))"

subsection \<open>salvar\<close>

text \<open>The checks at the head of \<^verbatim>\<open>salvar\<close>: the message of the first one that fails.\<close>

definition validate :: "Automacao \<Rightarrow> string option" where
  "validate f =
     (if trim (name f) = [] then Some ''informe um nome''
      else if trim (espId f) = [] then Some ''selecione um dispositivo''
      else if kind f = Alert then
        (if (case metricKey f of None \<Rightarrow> True | Some k \<Rightarrow> trim k = []) then Some ''informe a metrica''
         else if operador f = None then Some ''selecione o operador''
         else if (case threshold f of None \<Rightarrow> True | Some t \<Rightarrow> isNaN t) then
           Some ''informe o valor de limiar''
         else None)
      else None)"

text \<open>The body of the answer to \<^verbatim>\<open>POST /api/rules\<close>: \<^verbatim>\<open>result.rule?._id\<close> and
  \<^verbatim>\<open>result.rule?.id\<close>.\<close>

record PostResult =
  rule_uid :: "string option"
  rule_id :: "string option"

definition resultId :: "PostResult \<Rightarrow> string \<Rightarrow> string" where
  "resultId result d = optStrOr (rule_uid result) (optStrOr (rule_id result) d)"

definition replaceOrAdd :: "string option \<Rightarrow> Automacao \<Rightarrow> Automacao list \<Rightarrow> Automacao list" where
  "replaceOrAdd eid rule current =
     (case eid of
        None \<Rightarrow> rule # current
      | Some i \<Rightarrow> map (\<lambda>item. if ident item = i then rule else item) current)"

definition salvar ::
  "('r, 'v) env \<Rightarrow> browser \<Rightarrow> PostResult response \<Rightarrow> state \<Rightarrow> state" where
  "salvar e b resp st =
     (case validate (form st) of
        Some msg \<Rightarrow> st\<lparr>erro := msg\<rparr>
      | None \<Rightarrow>
          (let st1 = st\<lparr>erro := []\<rparr>;
               eid = (case editId st of None \<Rightarrow> None | Some i \<Rightarrow> if i = [] then None else Some i);
               st2 =
                 (case resp of
                    Ok result \<Rightarrow>
                      setAutomacoes b
                        (replaceOrAdd eid ((form st)\<lparr>ident := resultId result (ident (form st))\<rparr>)) st1
                  | _ \<Rightarrow>
                      (let st1a = (warn ''Erro ao salvar regra no backend:'' st1)
                                    \<lparr>erro := ''Regra salva localmente, mas falhou ao sincronizar com backend''\<rparr>
                       in case eid of
                            Some i \<Rightarrow> setAutomacoes b (replaceOrAdd eid (form st)) st1a
                          | None \<Rightarrow>
                              setAutomacoes b
                                (replaceOrAdd eid ((form st)\<lparr>ident := randomUUID e (uuidCount st1a)\<rparr>))
                                (st1a\<lparr>uuidCount := Suc (uuidCount st1a)\<rparr>)))
           in st2\<lparr>abrirForm := False, editId := None\<rparr>))"

text \<open>The handler of the switch of a rule card.\<close>

definition toggleEnabled :: "browser \<Rightarrow> Automacao \<Rightarrow> bool \<Rightarrow> state \<Rightarrow> state" where
  "toggleEnabled b automation v st =
     setAutomacoes b
       (map (\<lambda>item. if ident item = ident automation then item\<lparr>enabled := v\<rparr> else item)) st"

subsection \<open>Notions used to state the properties\<close>

text \<open>A rule fires on a reading when the loop body, run on a cycle that has recorded
  nothing yet, records an update.\<close>

definition emptyCycle :: cycle where
  "emptyCycle = \<lparr> updates = [], novosEventos = [], seen = Map.empty, drawn = 0, warned = [] \<rparr>"

definition fires :: "('r, 'v) env \<Rightarrow> int \<Rightarrow> (string \<times> 'v) list \<Rightarrow> Automacao \<Rightarrow> bool" where
  "fires e ts flat automation = (updates (evalRule e ts [] flat automation emptyCycle) \<noteq> [])"

text \<open>The timestamp of the reading a device answers with (0 when there is none), and whether
  the cycle processes it, given the timestamps seen so far.\<close>

definition readingTs :: "('r, 'v) env \<Rightarrow> (string \<Rightarrow> 'r option response) \<Rightarrow> string \<Rightarrow> int" where
  "readingTs e fetch device =
     (case fetch device of Ok (Some payload) \<Rightarrow> pickTimestamp e payload 0 | _ \<Rightarrow> 0)"

definition readingFlat ::
  "('r, 'v) env \<Rightarrow> (string \<Rightarrow> 'r option response) \<Rightarrow> string \<Rightarrow> (string \<times> 'v) list" where
  "readingFlat e fetch device =
     (case fetch device of Ok (Some payload) \<Rightarrow> extractPayloadMaps e payload | _ \<Rightarrow> [])"

definition processed ::
  "('r, 'v) env \<Rightarrow> (string \<Rightarrow> 'r option response) \<Rightarrow> (string \<rightharpoonup> int) \<Rightarrow> string \<Rightarrow> bool" where
  "processed e fetch sn device =
     (readingTs e fetch device \<noteq> 0 \<and> orZero (sn device) < readingTs e fetch device)"

text \<open>The cycle of a state: the loop of \<^verbatim>\<open>evaluate\<close> over the target devices.\<close>

definition cycleOf ::
  "('r, 'v) env \<Rightarrow> (string \<Rightarrow> 'r option response) \<Rightarrow> state \<Rightarrow> cycle" where
  "cycleOf e fetch st =
     deviceLoop e fetch (automacoes st) (espAlvos (automacoes st)) (startCycle st)"


text \<open>The backend rules as \<^verbatim>\<open>loadRules\<close> converts them, in order, \<open>n\<close> identifiers having
  been drawn before.\<close>

fun convertAll :: "(nat \<Rightarrow> string) \<Rightarrow> nat \<Rightarrow> BackendRule list \<Rightarrow> Automacao list" where
  "convertAll uuid n [] = []"
| "convertAll uuid n (rule # rules) =
     toAutomacao (uuid n) rule #
     convertAll uuid (if backendId rule = None then Suc n else n) rules"

text \<open>The last rule of a list that carries a given identifier.\<close>

definition lastWithId :: "Automacao list \<Rightarrow> string \<Rightarrow> Automacao option" where
  "lastWithId rules i = find (\<lambda>rule. ident rule = i) (rev rules)"

text \<open>A browser whose storage takes every write, and a state whose two storage keys mirror
  its two collections.\<close>

definition storageWorks :: "browser \<Rightarrow> bool" where
  "storageWorks b = (hasWindow b \<and> (\<forall>key v. setItemOk b key v))"

definition mirrored :: "state \<Rightarrow> bool" where
  "mirrored st =
     (storage st AUTOMATIONS_KEY =
        (if automacoes st = [] then None else Some (Rules (automacoes st))) \<and>
      storage st EVENTS_KEY =
        (if eventos st = [] then None else Some (Events (take 200 (eventos st)))))"

subsection \<open>A concrete page\<close>

text \<open>
  An instance of the environment on which the properties below are exercised. A reading is a
  pair of an optional timestamp and a flat mapping with integer values; the clock is UTC.

  Modelled from the spec: \<^verbatim>\<open>normalizeKey\<close> of \<^verbatim>\<open>lib/readings-utils.ts\<close>, which
  ``case-folds and strips non-alphanumeric characters'', and its \<^verbatim>\<open>pickTimestamp\<close>, which
  returns the timestamp of the reading when it has one and the fallback otherwise.
\<close>

definition toLower :: "char \<Rightarrow> char" where
  "toLower c =
     (case map_of (zip ''ABCDEFGHIJKLMNOPQRSTUVWXYZ'' ''abcdefghijklmnopqrstuvwxyz'') c of
        Some l \<Rightarrow> l
      | None \<Rightarrow> c)"

definition isAlnum :: "char \<Rightarrow> bool" where
  "isAlnum c = (c \<in> set ''abcdefghijklmnopqrstuvwxyzABCDEFGHIJKLMNOPQRSTUVWXYZ0123456789'')"

definition normalizeKeySpec :: "string \<Rightarrow> string" where
  "normalizeKeySpec s = map toLower (filter isAlnum s)"

definition digitChar :: "nat \<Rightarrow> char" where
  "digitChar n = ''0123456789'' ! (n mod 10)"

fun digits :: "nat \<Rightarrow> string" where
  "digits n = (if n < 10 then [digitChar n] else digits (n div 10) @ [digitChar n])"

declare digits.simps [simp del]

definition showInt :: "int \<Rightarrow> string" where
  "showInt i = (if i < 0 then CHR ''-'' # digits (nat (- i)) else digits (nat i))"

fun numText :: "number \<Rightarrow> string" where
  "numText (Fin x) = showInt \<lfloor>x\<rfloor>"
| "numText PosInf = ''Infinity''"
| "numText NegInf = ''-Infinity''"
| "numText NaN = ''NaN''"

definition utcHours :: "int \<Rightarrow> int" where
  "utcHours ts = (ts div 3600000) mod 24"

definition utcMinutes :: "int \<Rightarrow> int" where
  "utcMinutes ts = (ts div 60000) mod 60"

definition clockText :: "int \<Rightarrow> string" where
  "clockText ts =
     [digitChar (nat (utcHours ts) div 10), digitChar (nat (utcHours ts)), CHR '':'',
      digitChar (nat (utcMinutes ts) div 10), digitChar (nat (utcMinutes ts))]"

type_synonym demoReading = "int option \<times> (string \<times> int) list"

definition demoEnv :: "(demoReading, int) env" where
  "demoEnv =
     \<lparr> normalizeKey = normalizeKeySpec,
       numericValue = (\<lambda>raw. case raw of None \<Rightarrow> NaN | Some i \<Rightarrow> Fin (of_int i)),
       pickTimestamp = (\<lambda>reading fallback. case fst reading of None \<Rightarrow> fallback | Some t \<Rightarrow> t),
       extractPayloadMaps = snd,
       formatClock = clockText,
       getHours = utcHours,
       getMinutes = utcMinutes,
       numberToString = numText,
       rawToString = showInt,
       randomUUID = (\<lambda>n. ''uuid-'' @ digits n) \<rparr>"

definition demoBrowser :: browser where
  "demoBrowser = \<lparr> hasWindow = True, setItemOk = (\<lambda>_ _. True) \<rparr>"

text \<open>An alert on the temperature of device \<open>esp1\<close> and a schedule at 18:00 on device
  \<open>esp2\<close>.\<close>

definition hotRule :: Automacao where
  "hotRule =
     \<lparr> ident = ''r1'', name = ''Quente'', description = None, enabled = True, kind = Alert,
       espId = ''esp1'', metricKey = Some ''temperatura'', operador = Some Gt,
       threshold = Some (Fin 30), schedule = None, lastTriggered = None \<rparr>"

definition eveningRule :: Automacao where
  "eveningRule =
     \<lparr> ident = ''r2'', name = ''Noite'', description = None, enabled = True, kind = Schedule,
       espId = ''esp2'', metricKey = None, operador = None, threshold = None,
       schedule = Some \<lparr> hh = 18, mm = 0 \<rparr>, lastTriggered = None \<rparr>"

definition demoState :: state where
  "demoState =
     \<lparr> automacoes = [hotRule, eveningRule], eventos = [], erro = [], abrirForm = False,
       editId = None, form = hotRule, loading = False, lastSeen = Map.empty,
       storage = [AUTOMATIONS_KEY \<mapsto> Rules [hotRule, eveningRule]], warnings = [],
       uuidCount = 0 \<rparr>"

text \<open>Both devices answer with a reading taken at 18:00:00 UTC of the first day of the epoch;
  \<open>esp1\<close> reports 31 degrees under a \<^verbatim>\<open>data\<close> envelope.\<close>

definition demoFetch :: "string \<Rightarrow> demoReading option response" where
  "demoFetch device =
     (if device = ''esp1'' then Ok (Some (Some 64800000, [(''data.temperatura'', 31)]))
      else if device = ''esp2'' then Ok (Some (Some 64800000, []))
      else NotOk)"

text \<open>The \<open>n\<close>-th of a series of trigger events.\<close>

definition demoEvent :: "nat \<Rightarrow> Evento" where
  "demoEvent n =
     \<lparr> ev_id = ''uuid-'' @ digits n, ev_ts = 64800000 + int n, ev_espId = ''esp1'',
       ev_name = ''Quente'', ev_text = ''Quente disparada'' \<rparr>"

text \<open>The form of a new alert whose metric key was left empty, and the page showing it.\<close>

definition blankMetricForm :: Automacao where
  "blankMetricForm = hotRule\<lparr>ident := ''r3'', metricKey := Some []\<rparr>"

definition demoFormState :: state where
  "demoFormState = demoState\<lparr>form := blankMetricForm, abrirForm := True\<rparr>"

text \<open>What the backend holds: its own copy of rule \<open>r1\<close>, with another name and threshold,
  and a rule without any identifier or other field.\<close>

definition demoBackendRules :: "BackendRule list" where
  "demoBackendRules =
     [\<lparr> b_uid = Some ''r1'', b_id = None, b_name = Some ''Calor'', b_description = None,
        b_enabled = None, b_type = Some Alert, b_espId = Some ''esp1'',
        b_metricKey = Some ''temperatura'', b_operador = Some Gt, b_threshold = Some (Fin 35),
        b_schedule = None, b_lastTriggered = None \<rparr>,
      \<lparr> b_uid = None, b_id = None, b_name = None, b_description = None,
        b_enabled = None, b_type = None, b_espId = None,
        b_metricKey = None, b_operador = None, b_threshold = None,
        b_schedule = None, b_lastTriggered = None \<rparr>]"

definition calorRule :: Automacao where
  "calorRule = hotRule\<lparr>name := ''Calor'', threshold := Some (Fin 35)\<rparr>"

definition bareRule :: Automacao where
  "bareRule =
     \<lparr> ident = ''uuid-0'', name = [], description = None, enabled = True, kind = Alert,
       espId = [], metricKey = None, operador = None, threshold = None, schedule = None,
       lastTriggered = None \<rparr>"


text \<open>
  The firing condition of a schedule rule as the specification words it: hour and minute of
  the reading equal those of the schedule, and there is no prior trigger or at least 60
  seconds (60,000 ms) have elapsed since it.
\<close>

definition claimedScheduleFires :: "('r, 'v) env \<Rightarrow> int \<Rightarrow> Automacao \<Rightarrow> bool" where
  "claimedScheduleFires e ts automation =
     (case schedule automation of
        None \<Rightarrow> False
      | Some s \<Rightarrow>
          getHours e ts = hh s \<and> getMinutes e ts = mm s \<and>
          (case lastTriggered automation of None \<Rightarrow> True | Some p \<Rightarrow> 60000 \<le> ts - p))"

text \<open>The schedule of the concrete page after it has fired at 18:00:00 of the first day, the
  page holding it, and a backend whose device \<open>esp2\<close> answers with a reading taken at a given
  time.\<close>

definition firedEvening :: Automacao where
  "firedEvening = eveningRule\<lparr>lastTriggered := Some 64800000\<rparr>"

definition demoFiredState :: state where
  "demoFiredState =
     demoState\<lparr>automacoes := [hotRule, firedEvening],
               lastSeen := [''esp1'' \<mapsto> 64800000, ''esp2'' \<mapsto> 64800000]\<rparr>"

definition fetchAt :: "int \<Rightarrow> string \<Rightarrow> demoReading option response" where
  "fetchAt t device = (if device = ''esp2'' then Ok (Some (Some t, [])) else NotOk)"

section \<open>Properties of the evaluation loop\<close>

lemma fire_fields [simp]:
  "updates (fire e ts d nm txt rid c) = AList.update rid ts (updates c)"
  "novosEventos (fire e ts d nm txt rid c) = novosEventos c @
     [\<lparr> ev_id = randomUUID e (drawn c), ev_ts = ts, ev_espId = d, ev_name = nm, ev_text = txt \<rparr>]"
  "seen (fire e ts d nm txt rid c) = seen c"
  "drawn (fire e ts d nm txt rid c) = Suc (drawn c)"
  "warned (fire e ts d nm txt rid c) = warned c"
  by (simp_all add: fire_def)

lemma evalRule_not_fires:
  "\<not> fires e ts flat a \<Longrightarrow> evalRule e ts d flat a c = c"
  unfolding fires_def evalRule_def
  by (auto simp: Let_def split: option.splits if_splits prod.splits)

lemma evalRule_fires:
  "fires e ts flat a \<Longrightarrow>
     \<exists>nm txt. \<forall>d c. evalRule e ts d flat a c = fire e ts d nm txt (ident a) c"
  unfolding fires_def evalRule_def
  by (auto simp: Let_def emptyCycle_def split: option.splits if_splits prod.splits)

lemma evalRule_seen [simp]: "seen (evalRule e ts d flat a c) = seen c"
  using evalRule_fires [of e ts flat a] evalRule_not_fires [of e ts flat a d c]
  by (cases "fires e ts flat a") auto

lemma evalRule_warned [simp]: "warned (evalRule e ts d flat a c) = warned c"
  using evalRule_fires [of e ts flat a] evalRule_not_fires [of e ts flat a d c]
  by (cases "fires e ts flat a") auto

lemma evalRule_updates:
  "map_of (updates (evalRule e ts d flat a c)) k =
     (if ident a = k \<and> fires e ts flat a then Some ts else map_of (updates c) k)"
  using evalRule_fires [of e ts flat a] evalRule_not_fires [of e ts flat a d c]
  by (cases "fires e ts flat a") (auto simp: update_conv')

lemma evalRule_events:
  "\<exists>news. novosEventos (evalRule e ts d flat a c) = novosEventos c @ news \<and>
          length news = (if fires e ts flat a then 1 else 0) \<and>
          (\<forall>ev \<in> set news. ev_espId ev = d \<and> ev_ts ev = ts)"
  using evalRule_fires [of e ts flat a] evalRule_not_fires [of e ts flat a d c]
  by (cases "fires e ts flat a") auto

lemma ruleLoop_Nil [simp]: "ruleLoop e ts d flat [] c = c"
  by (simp add: ruleLoop_def)

lemma ruleLoop_Cons [simp]:
  "ruleLoop e ts d flat (a # as) c = ruleLoop e ts d flat as (evalRule e ts d flat a c)"
  by (simp add: ruleLoop_def)

lemma ruleLoop_append:
  "ruleLoop e ts d flat (as @ bs) c = ruleLoop e ts d flat bs (ruleLoop e ts d flat as c)"
  by (simp add: ruleLoop_def)

lemma ruleLoop_seen [simp]: "seen (ruleLoop e ts d flat as c) = seen c"
  by (induction as arbitrary: c) auto

lemma ruleLoop_warned [simp]: "warned (ruleLoop e ts d flat as c) = warned c"
  by (induction as arbitrary: c) auto

lemma ruleLoop_updates:
  "map_of (updates (ruleLoop e ts d flat as c)) k =
     (if \<exists>a \<in> set as. ident a = k \<and> fires e ts flat a then Some ts else map_of (updates c) k)"
  by (induction as arbitrary: c) (auto simp: evalRule_updates)

lemma ruleLoop_events:
  "\<exists>news. novosEventos (ruleLoop e ts d flat as c) = novosEventos c @ news \<and>
          length news = length (filter (fires e ts flat) as) \<and>
          (\<forall>ev \<in> set news. ev_espId ev = d \<and> ev_ts ev = ts)"
proof (induction as arbitrary: c)
  case Nil
  then show ?case by simp
next
  case (Cons a as)
  obtain n1 where n1: "novosEventos (evalRule e ts d flat a c) = novosEventos c @ n1"
      "length n1 = (if fires e ts flat a then 1 else 0)"
      "\<forall>ev \<in> set n1. ev_espId ev = d \<and> ev_ts ev = ts"
    using evalRule_events [of e ts d flat a c] by blast
  obtain n2 where n2:
      "novosEventos (ruleLoop e ts d flat as (evalRule e ts d flat a c)) =
         novosEventos (evalRule e ts d flat a c) @ n2"
      "length n2 = length (filter (fires e ts flat) as)"
      "\<forall>ev \<in> set n2. ev_espId ev = d \<and> ev_ts ev = ts"
    using Cons.IH [of "evalRule e ts d flat a c"] by blast
  have "novosEventos (ruleLoop e ts d flat (a # as) c) = novosEventos c @ (n1 @ n2)"
    using n1(1) n2(1) by simp
  moreover have "length (n1 @ n2) = length (filter (fires e ts flat) (a # as))"
    using n1(2) n2(2) by simp
  moreover have "\<forall>ev \<in> set (n1 @ n2). ev_espId ev = d \<and> ev_ts ev = ts"
    using n1(3) n2(3) by auto
  ultimately show ?case by blast
qed

text \<open>The device step.\<close>

lemma evalDevice_cases:
  "evalDevice e fetch rules d c =
     (if processed e fetch (seen c) d then
        ruleLoop e (readingTs e fetch d) d (readingFlat e fetch d)
          (filter (\<lambda>a. enabled a \<and> espId a = d) rules)
          (c\<lparr>seen := (seen c)(d \<mapsto> readingTs e fetch d)\<rparr>)
      else if fetch d = Threw then c\<lparr>warned := warned c @ [''falha ao avaliar automacoes'']\<rparr>
      else c)"
  by (auto simp: evalDevice_def processed_def readingTs_def readingFlat_def Let_def
           split: response.splits option.splits)

lemma evalDevice_seen:
  "seen (evalDevice e fetch rules d c) =
     (if processed e fetch (seen c) d then (seen c)(d \<mapsto> readingTs e fetch d) else seen c)"
  by (simp add: evalDevice_cases)

lemma evalDevice_updates:
  "map_of (updates (evalDevice e fetch rules d c)) k =
     (if processed e fetch (seen c) d \<and>
         (\<exists>a \<in> set rules. enabled a \<and> espId a = d \<and> ident a = k \<and>
            fires e (readingTs e fetch d) (readingFlat e fetch d) a)
      then Some (readingTs e fetch d) else map_of (updates c) k)"
  by (auto simp: evalDevice_cases ruleLoop_updates)

lemma evalDevice_events:
  "\<exists>news. novosEventos (evalDevice e fetch rules d c) = novosEventos c @ news \<and>
          length news =
            (if processed e fetch (seen c) d
             then length (filter (\<lambda>a. enabled a \<and> espId a = d \<and>
                    fires e (readingTs e fetch d) (readingFlat e fetch d) a) rules)
             else 0) \<and>
          (\<forall>ev \<in> set news. ev_espId ev = d \<and> ev_ts ev = readingTs e fetch d)"
proof (cases "processed e fetch (seen c) d")
  case True
  let ?c1 = "c\<lparr>seen := (seen c)(d \<mapsto> readingTs e fetch d)\<rparr>"
  let ?as = "filter (\<lambda>a. enabled a \<and> espId a = d) rules"
  obtain news where news:
    "novosEventos (ruleLoop e (readingTs e fetch d) d (readingFlat e fetch d) ?as ?c1) =
       novosEventos ?c1 @ news"
    "length news = length (filter (fires e (readingTs e fetch d) (readingFlat e fetch d)) ?as)"
    "\<forall>ev \<in> set news. ev_espId ev = d \<and> ev_ts ev = readingTs e fetch d"
    using ruleLoop_events [of e "readingTs e fetch d" d "readingFlat e fetch d" ?as ?c1] by blast
  have "filter (fires e (readingTs e fetch d) (readingFlat e fetch d)) ?as =
        filter (\<lambda>a. enabled a \<and> espId a = d \<and>
                    fires e (readingTs e fetch d) (readingFlat e fetch d) a) rules"
    by (simp add: conj_commute conj_left_commute cong: conj_cong)
  with news True show ?thesis by (simp add: evalDevice_cases)
next
  case False
  then show ?thesis by (simp add: evalDevice_cases)
qed


lemma processed_cong: "sn d = sn' d \<Longrightarrow> processed e fetch sn d = processed e fetch sn' d"
  by (simp add: processed_def)

lemma deviceLoop_Nil [simp]: "deviceLoop e fetch rules [] c = c"
  by (simp add: deviceLoop_def)

lemma deviceLoop_Cons [simp]:
  "deviceLoop e fetch rules (d # ds) c = deviceLoop e fetch rules ds (evalDevice e fetch rules d c)"
  by (simp add: deviceLoop_def)

lemma evalDevice_processed_other:
  "d' \<noteq> d \<Longrightarrow>
     processed e fetch (seen (evalDevice e fetch rules d c)) d' = processed e fetch (seen c) d'"
  by (rule processed_cong) (simp add: evalDevice_seen)

lemma deviceLoop_seen:
  "distinct devs \<Longrightarrow>
     seen (deviceLoop e fetch rules devs c) d =
       (if d \<in> set devs \<and> processed e fetch (seen c) d then Some (readingTs e fetch d)
        else seen c d)"
proof (induction devs arbitrary: c)
  case Nil
  then show ?case by simp
next
  case (Cons x xs)
  let ?c' = "evalDevice e fetch rules x c"
  have IH: "seen (deviceLoop e fetch rules xs ?c') d =
       (if d \<in> set xs \<and> processed e fetch (seen ?c') d then Some (readingTs e fetch d)
        else seen ?c' d)"
    using Cons.IH [of ?c'] Cons.prems by simp
  show ?case
  proof (cases "d = x")
    case True
    with Cons.prems have "d \<notin> set xs" by simp
    with IH True show ?thesis by (simp add: evalDevice_seen)
  next
    case False
    then have "processed e fetch (seen ?c') d = processed e fetch (seen c) d"
      by (rule evalDevice_processed_other)
    moreover have "seen ?c' d = seen c d"
      using False by (simp add: evalDevice_seen)
    ultimately show ?thesis using IH False by simp
  qed
qed

lemma deviceLoop_updates:
  assumes "distinct devs" and "r \<in> set rules"
    and uniq: "\<forall>a \<in> set rules. ident a = ident r \<longrightarrow> a = r"
  shows "map_of (updates (deviceLoop e fetch rules devs c)) (ident r) =
       (if enabled r \<and> espId r \<in> set devs \<and> processed e fetch (seen c) (espId r) \<and>
           fires e (readingTs e fetch (espId r)) (readingFlat e fetch (espId r)) r
        then Some (readingTs e fetch (espId r)) else map_of (updates c) (ident r))"
  using assms(1)
proof (induction devs arbitrary: c)
  case Nil
  then show ?case by simp
next
  case (Cons x xs)
  let ?c' = "evalDevice e fetch rules x c"
  let ?F = "fires e (readingTs e fetch (espId r)) (readingFlat e fetch (espId r)) r"
  have IH: "map_of (updates (deviceLoop e fetch rules xs ?c')) (ident r) =
       (if enabled r \<and> espId r \<in> set xs \<and> processed e fetch (seen ?c') (espId r) \<and> ?F
        then Some (readingTs e fetch (espId r)) else map_of (updates ?c') (ident r))"
    using Cons.IH [of ?c'] Cons.prems by simp
  have step: "map_of (updates ?c') (ident r) =
       (if processed e fetch (seen c) x \<and> enabled r \<and> espId r = x \<and>
           fires e (readingTs e fetch x) (readingFlat e fetch x) r
        then Some (readingTs e fetch x) else map_of (updates c) (ident r))"
    using uniq assms(2) by (auto simp: evalDevice_updates)
  show ?case
  proof (cases "espId r = x")
    case True
    with Cons.prems have "espId r \<notin> set xs" by simp
    with IH step True show ?thesis by simp
  next
    case False
    then have "processed e fetch (seen ?c') (espId r) = processed e fetch (seen c) (espId r)"
      by (rule evalDevice_processed_other)
    with IH step False show ?thesis by simp
  qed
qed

lemma deviceLoop_events:
  "distinct devs \<Longrightarrow>
   \<exists>news. novosEventos (deviceLoop e fetch rules devs c) = novosEventos c @ news \<and>
     (\<forall>ev \<in> set news. ev_espId ev \<in> set devs \<and> processed e fetch (seen c) (ev_espId ev) \<and>
         ev_ts ev = readingTs e fetch (ev_espId ev)) \<and>
     (\<forall>d. length (filter (\<lambda>ev. ev_espId ev = d) news) =
         (if d \<in> set devs \<and> processed e fetch (seen c) d
          then length (filter (\<lambda>a. enabled a \<and> espId a = d \<and>
                 fires e (readingTs e fetch d) (readingFlat e fetch d) a) rules)
          else 0))"
proof (induction devs arbitrary: c)
  case Nil
  then show ?case by simp
next
  case (Cons x xs)
  let ?c' = "evalDevice e fetch rules x c"
  let ?n = "\<lambda>d. length (filter (\<lambda>a. enabled a \<and> espId a = d \<and>
                 fires e (readingTs e fetch d) (readingFlat e fetch d) a) rules)"
  from Cons.prems have x: "x \<notin> set xs" and dxs: "distinct xs" by simp_all
  obtain n1 where n1: "novosEventos ?c' = novosEventos c @ n1"
      "length n1 = (if processed e fetch (seen c) x then ?n x else 0)"
      "\<forall>ev \<in> set n1. ev_espId ev = x \<and> ev_ts ev = readingTs e fetch x"
    using evalDevice_events [of e fetch rules x c] by blast
  obtain n2 where n2: "novosEventos (deviceLoop e fetch rules xs ?c') = novosEventos ?c' @ n2"
      "\<forall>ev \<in> set n2. ev_espId ev \<in> set xs \<and> processed e fetch (seen ?c') (ev_espId ev) \<and>
         ev_ts ev = readingTs e fetch (ev_espId ev)"
      "\<forall>d. length (filter (\<lambda>ev. ev_espId ev = d) n2) =
         (if d \<in> set xs \<and> processed e fetch (seen ?c') d then ?n d else 0)"
    using Cons.IH [OF dxs, of ?c'] by blast
  have other: "\<And>d. d \<in> set xs \<Longrightarrow>
      processed e fetch (seen ?c') d = processed e fetch (seen c) d"
    using x by (intro evalDevice_processed_other) auto
  have n1_proc: "n1 \<noteq> [] \<Longrightarrow> processed e fetch (seen c) x"
    using n1(2) by (auto split: if_splits)
  have a: "novosEventos (deviceLoop e fetch rules (x # xs) c) = novosEventos c @ (n1 @ n2)"
    using n1(1) n2(1) by simp
  have b: "\<forall>ev \<in> set (n1 @ n2). ev_espId ev \<in> set (x # xs) \<and>
         processed e fetch (seen c) (ev_espId ev) \<and> ev_ts ev = readingTs e fetch (ev_espId ev)"
  proof
    fix ev assume "ev \<in> set (n1 @ n2)"
    then consider "ev \<in> set n1" | "ev \<in> set n2" by auto
    then show "ev_espId ev \<in> set (x # xs) \<and>
         processed e fetch (seen c) (ev_espId ev) \<and> ev_ts ev = readingTs e fetch (ev_espId ev)"
    proof cases
      case 1
      then have "n1 \<noteq> []" by auto
      with 1 n1(3) n1_proc show ?thesis by auto
    next
      case 2
      with n2(2) other show ?thesis by auto
    qed
  qed
  have c: "\<forall>d. length (filter (\<lambda>ev. ev_espId ev = d) (n1 @ n2)) =
         (if d \<in> set (x # xs) \<and> processed e fetch (seen c) d then ?n d else 0)"
  proof
    fix d
    have f1: "filter (\<lambda>ev. ev_espId ev = d) n1 = (if d = x then n1 else [])"
      using n1(3) by (auto simp: filter_empty_conv filter_id_conv)
    show "length (filter (\<lambda>ev. ev_espId ev = d) (n1 @ n2)) =
         (if d \<in> set (x # xs) \<and> processed e fetch (seen c) d then ?n d else 0)"
    proof (cases "d = x")
      case True
      with x n2(3) have "length (filter (\<lambda>ev. ev_espId ev = d) n2) = 0" by simp
      with f1 True n1(2) show ?thesis by simp
    next
      case False
      have "length (filter (\<lambda>ev. ev_espId ev = d) n2) =
         (if d \<in> set xs \<and> processed e fetch (seen c) d then ?n d else 0)"
        using n2(3) other [of d] by auto
      with f1 False show ?thesis by simp
    qed
  qed
  from a b c show ?case by blast
qed

lemma fold_setAdd:
  "distinct acc \<Longrightarrow>
     distinct (fold setAdd xs acc) \<and> set (fold setAdd xs acc) = set acc \<union> set xs"
  by (induction xs arbitrary: acc) (auto simp: setAdd_def)

lemma distinct_espAlvos: "distinct (espAlvos rules)"
  using fold_setAdd [of "[]"] by (simp add: espAlvos_def)

lemma set_espAlvos:
  "set (espAlvos rules) = {espId a | a. a \<in> set rules \<and> enabled a \<and> espId a \<noteq> []}"
  using fold_setAdd [of "[]" "map espId (filter (\<lambda>a. enabled a \<and> espId a \<noteq> []) rules)"]
  by (auto simp: espAlvos_def)

section \<open>Properties of the setters\<close>

lemma writeLocal_fields [simp]:
  "automacoes (writeLocal b k v st) = automacoes st"
  "eventos (writeLocal b k v st) = eventos st"
  "erro (writeLocal b k v st) = erro st"
  "abrirForm (writeLocal b k v st) = abrirForm st"
  "editId (writeLocal b k v st) = editId st"
  "form (writeLocal b k v st) = form st"
  "loading (writeLocal b k v st) = loading st"
  "lastSeen (writeLocal b k v st) = lastSeen st"
  "uuidCount (writeLocal b k v st) = uuidCount st"
  by (simp_all add: writeLocal_def warn_def)

lemma writeLocal_storage:
  "hasWindow b \<Longrightarrow> setItemOk b k v \<Longrightarrow>
     storage (writeLocal b k v st) = (storage st)(k := (if isEmptyArray v then None else Some v))"
  by (simp add: writeLocal_def)

lemma writeLocal_warnings:
  "set (warnings st) \<subseteq> set (warnings (writeLocal b k v st))"
  by (auto simp: writeLocal_def warn_def)

lemma setAutomacoes_fields [simp]:
  "automacoes (setAutomacoes b f st) = f (automacoes st)"
  "eventos (setAutomacoes b f st) = eventos st"
  "erro (setAutomacoes b f st) = erro st"
  "abrirForm (setAutomacoes b f st) = abrirForm st"
  "editId (setAutomacoes b f st) = editId st"
  "form (setAutomacoes b f st) = form st"
  "loading (setAutomacoes b f st) = loading st"
  "lastSeen (setAutomacoes b f st) = lastSeen st"
  "uuidCount (setAutomacoes b f st) = uuidCount st"
  by (simp_all add: setAutomacoes_def)

lemma setEventos_fields [simp]:
  "automacoes (setEventos b f st) = automacoes st"
  "eventos (setEventos b f st) = f (eventos st)"
  "erro (setEventos b f st) = erro st"
  "abrirForm (setEventos b f st) = abrirForm st"
  "editId (setEventos b f st) = editId st"
  "form (setEventos b f st) = form st"
  "loading (setEventos b f st) = loading st"
  "lastSeen (setEventos b f st) = lastSeen st"
  "uuidCount (setEventos b f st) = uuidCount st"
  by (simp_all add: setEventos_def)

lemma keys_differ: "AUTOMATIONS_KEY \<noteq> EVENTS_KEY"
  by (simp add: AUTOMATIONS_KEY_def EVENTS_KEY_def)

lemma setAutomacoes_storage:
  "storageWorks b \<Longrightarrow>
     storage (setAutomacoes b f st) =
       (storage st)(AUTOMATIONS_KEY :=
          (if f (automacoes st) = [] then None else Some (Rules (f (automacoes st)))))"
  by (simp add: setAutomacoes_def storageWorks_def writeLocal_storage)

lemma setEventos_storage:
  "storageWorks b \<Longrightarrow>
     storage (setEventos b f st) =
       (storage st)(EVENTS_KEY :=
          (if take 200 (f (eventos st)) = [] then None
           else Some (Events (take 200 (f (eventos st))))))"
  by (simp add: setEventos_def storageWorks_def writeLocal_storage)

lemma applyUpdates_Nil [simp]: "applyUpdates [] current = current"
  by (simp add: applyUpdates_def)

lemma evaluate_automacoes:
  "automacoes (evaluate e b fetch st) = applyUpdates (updates (cycleOf e fetch st)) (automacoes st)"
  by (simp add: evaluate_def cycleOf_def Let_def startCycle_def)

lemma evaluate_eventos:
  "eventos (evaluate e b fetch st) =
     (if novosEventos (cycleOf e fetch st) = [] then eventos st
      else pushEventos (novosEventos (cycleOf e fetch st)) (eventos st))"
  by (simp add: evaluate_def cycleOf_def Let_def startCycle_def)


section \<open>The batch of lastTriggered updates\<close>

text \<open>
  Claim C10. Applying the updates collected by a cycle keeps the length and the order of the
  rule list; a rule whose identifier is not in the update map is returned as it is; a rule
  whose identifier is mapped to \<open>t\<close> gets \<open>lastTriggered = t\<close> and keeps every other field.
  The rule list after \<^verbatim>\<open>evaluate\<close> is the old one with the updates of the cycle applied.
\<close>

theorem applyUpdates_frame:
  "length (applyUpdates ups current) = length current \<and>
   map ident (applyUpdates ups current) = map ident current \<and>
   (\<forall>i < length current.
      (map_of ups (ident (current ! i)) = None \<longrightarrow>
         applyUpdates ups current ! i = current ! i) \<and>
      (\<forall>t. map_of ups (ident (current ! i)) = Some t \<longrightarrow>
         applyUpdates ups current ! i = (current ! i)\<lparr>lastTriggered := Some t\<rparr> \<and>
         lastTriggered (applyUpdates ups current ! i) = Some t \<and>
         ident (applyUpdates ups current ! i) = ident (current ! i) \<and>
         name (applyUpdates ups current ! i) = name (current ! i) \<and>
         description (applyUpdates ups current ! i) = description (current ! i) \<and>
         enabled (applyUpdates ups current ! i) = enabled (current ! i) \<and>
         kind (applyUpdates ups current ! i) = kind (current ! i) \<and>
         espId (applyUpdates ups current ! i) = espId (current ! i) \<and>
         metricKey (applyUpdates ups current ! i) = metricKey (current ! i) \<and>
         operador (applyUpdates ups current ! i) = operador (current ! i) \<and>
         threshold (applyUpdates ups current ! i) = threshold (current ! i) \<and>
         schedule (applyUpdates ups current ! i) = schedule (current ! i))) \<and>
   automacoes (evaluate e b fetch st) =
     applyUpdates (updates (cycleOf e fetch st)) (automacoes st)"
proof -
  have 1: "length (applyUpdates ups current) = length current"
    by (simp add: applyUpdates_def)
  have 2: "map ident (applyUpdates ups current) = map ident current"
    by (simp add: applyUpdates_def)
  have 3: "\<And>i. i < length current \<Longrightarrow> map_of ups (ident (current ! i)) = None \<Longrightarrow>
      applyUpdates ups current ! i = current ! i"
    by (simp add: applyUpdates_def)
  have 4: "\<And>i t. i < length current \<Longrightarrow> map_of ups (ident (current ! i)) = Some t \<Longrightarrow>
      applyUpdates ups current ! i = (current ! i)\<lparr>lastTriggered := Some t\<rparr>"
    by (simp add: applyUpdates_def)
  show ?thesis
    using 1 2 3 4 evaluate_automacoes [of e b fetch st] by simp
qed

text \<open>On the two rules of the concrete page, with an update for \<open>r1\<close> only.\<close>

theorem applyUpdates_frame_witness:
  "applyUpdates [(''r1'', 5)] [hotRule, eveningRule] ! 0 = hotRule\<lparr>lastTriggered := Some 5\<rparr> \<and>
   applyUpdates [(''r1'', 5)] [hotRule, eveningRule] ! 1 = eveningRule"
proof -
  note T = applyUpdates_frame [of "[(''r1'', 5)]" "[hotRule, eveningRule]" demoEnv demoBrowser demoFetch demoState]
  have a: "(0::nat) < length [hotRule, eveningRule]" "map_of [(''r1'', 5::int)] (ident ([hotRule, eveningRule] ! 0)) = Some 5"
    by (simp_all add: hotRule_def)
  have b: "(1::nat) < length [hotRule, eveningRule]" "map_of [(''r1'', 5::int)] (ident ([hotRule, eveningRule] ! 1)) = None"
    by (simp_all add: eveningRule_def)
  from T a have "applyUpdates [(''r1'', 5)] [hotRule, eveningRule] ! 0 = ([hotRule, eveningRule] ! 0)\<lparr>lastTriggered := Some 5\<rparr>"
    by blast
  moreover from T b have "applyUpdates [(''r1'', 5)] [hotRule, eveningRule] ! 1 = [hotRule, eveningRule] ! 1"
    by blast
  ultimately show ?thesis by simp
qed

section \<open>Metric resolution\<close>







section \<open>The event log\<close>

lemmas demo_defs =
  demoEnv_def demoFetch_def demoState_def hotRule_def eveningRule_def demoBrowser_def

lemma demo_espAlvos: "espAlvos (automacoes demoState) = [''esp1'', ''esp2'']"
  by (simp add: espAlvos_def demoState_def hotRule_def eveningRule_def setAdd_def)

lemma demo_cycle_unfold:
  "cycleOf demoEnv demoFetch demoState =
     deviceLoop demoEnv demoFetch (automacoes demoState) [''esp1'', ''esp2''] (startCycle demoState)"
  by (simp add: cycleOf_def demo_espAlvos)

lemma demo_cycle_events:
  "novosEventos (cycleOf demoEnv demoFetch demoState) =
     [\<lparr> ev_id = ''uuid-0'', ev_ts = 64800000, ev_espId = ''esp1'', ev_name = ''Quente'',
        ev_text = ''Quente disparada: temperatura > 30 (valor 31)'' \<rparr>,
      \<lparr> ev_id = ''uuid-1'', ev_ts = 64800000, ev_espId = ''esp2'', ev_name = ''Noite'',
        ev_text = ''Noite executado as 18:00'' \<rparr>]"
  unfolding demo_cycle_unfold
  by (simp add: deviceLoop_def evalDevice_def startCycle_def
        demo_defs Let_def evalRule_def
        resolveMetricValue_def leafOf_def normalizeKeySpec_def toLower_def isAlnum_def
        num_gt_def fire_def alertText_def scheduleText_def strOr_def showInt_def digits.simps
        digitChar_def clockText_def utcHours_def utcMinutes_def)

lemma demo_storageWorks: "storageWorks demoBrowser"
  by (simp add: storageWorks_def demoBrowser_def)

lemma take_append_take: "take n (xs @ take n ys) = take n (xs @ ys)"
  by (simp add: min_def)

lemma length_pushEventos: "length (pushEventos novos current) \<le> 200"
  by (simp add: pushEventos_def)

lemma fold_push:
  "length current \<le> 200 \<Longrightarrow>
     fold (\<lambda>novos current. if novos = [] then current else pushEventos novos current)
       batches current =
     take 200 (rev (concat batches) @ current)"
proof (induction batches arbitrary: current)
  case Nil
  then show ?case by simp
next
  case (Cons novos batches)
  let ?next = "if novos = [] then current else pushEventos novos current"
  have len: "length ?next \<le> 200"
    using Cons.prems by (simp add: length_pushEventos)
  have "?next = take 200 (rev novos @ current)"
    using Cons.prems by (simp add: pushEventos_def)
  then have "take 200 (rev (concat batches) @ ?next) =
             take 200 (rev (concat batches) @ rev novos @ current)"
    by (simp only: take_append_take)
  with Cons.IH [OF len] show ?case by simp
qed

text \<open>
  Claim C5. A cycle that emits events replaces the log by the first 200 entries of the
  reversed batch followed by the old log, and a cycle that emits none leaves the log alone,
  so a log of at most 200 entries stays so. Starting from the empty log, the log after any
  series of batches is the first 200 entries of all emitted events, the latest first; after
  250 emissions these are the events 51 to 250, so exactly the 50 oldest are gone. What
  \<^verbatim>\<open>setEventos\<close> persists is the first 200 entries of the new log, whatever its length.
\<close>

theorem eventos_capped:
  "(length (eventos st) \<le> 200 \<longrightarrow> length (eventos (evaluate e b fetch st)) \<le> 200) \<and>
   (novosEventos (cycleOf e fetch st) \<noteq> [] \<longrightarrow>
      eventos (evaluate e b fetch st) =
        take 200 (rev (novosEventos (cycleOf e fetch st)) @ eventos st) \<and>
      length (eventos (evaluate e b fetch st)) \<le> 200) \<and>
   (novosEventos (cycleOf e fetch st) = [] \<longrightarrow>
      eventos (evaluate e b fetch st) = eventos st) \<and>
   fold (\<lambda>novos current. if novos = [] then current else pushEventos novos current) batches [] =
     take 200 (rev (concat batches)) \<and>
   (length (concat batches) = 250 \<longrightarrow>
      fold (\<lambda>novos current. if novos = [] then current else pushEventos novos current)
        batches [] = rev (drop 50 (concat batches))) \<and>
   (storageWorks b \<longrightarrow>
      storage (setEventos b f st) EVENTS_KEY =
        (if f (eventos st) = [] then None else Some (Events (take 200 (f (eventos st))))))"
proof -
  have 1: "novosEventos (cycleOf e fetch st) \<noteq> [] \<Longrightarrow>
      eventos (evaluate e b fetch st) =
        take 200 (rev (novosEventos (cycleOf e fetch st)) @ eventos st)"
    by (simp add: evaluate_eventos pushEventos_def)
  have 2: "novosEventos (cycleOf e fetch st) = [] \<Longrightarrow>
      eventos (evaluate e b fetch st) = eventos st"
    by (simp add: evaluate_eventos)
  have 3: "length (eventos st) \<le> 200 \<Longrightarrow> length (eventos (evaluate e b fetch st)) \<le> 200"
    using 1 2 by (cases "novosEventos (cycleOf e fetch st) = []") simp_all
  have 4: "fold (\<lambda>novos current. if novos = [] then current else pushEventos novos current)
        batches [] = take 200 (rev (concat batches))"
    using fold_push [of "[]" batches] by simp
  have 5: "length (concat batches) = 250 \<Longrightarrow>
      take 200 (rev (concat batches)) = rev (drop 50 (concat batches))"
    by (simp add: take_rev)
  have 6: "storageWorks b \<Longrightarrow>
      storage (setEventos b f st) EVENTS_KEY =
        (if f (eventos st) = [] then None else Some (Events (take 200 (f (eventos st)))))"
    by (simp add: setEventos_storage)
  have 7: "novosEventos (cycleOf e fetch st) \<noteq> [] \<Longrightarrow>
      length (eventos (evaluate e b fetch st)) \<le> 200"
    by (simp add: evaluate_eventos length_pushEventos)
  have 8: "length (concat batches) = 250 \<Longrightarrow>
      fold (\<lambda>novos current. if novos = [] then current else pushEventos novos current)
        batches [] = rev (drop 50 (concat batches))"
    using 4 5 by simp
  show ?thesis
    using 1 2 3 4 6 7 8 by blast
qed

text \<open>The cycle of the concrete page emits two events into the empty log; 250 events emitted
  one by one leave the events 50 to 249, the latest first.\<close>

theorem eventos_capped_witness:
  "map ev_id (eventos (evaluate demoEnv demoBrowser demoFetch demoState)) = [''uuid-1'', ''uuid-0''] \<and>
   fold (\<lambda>novos current. if novos = [] then current else pushEventos novos current)
     (map (\<lambda>n. [demoEvent n]) [0..<250]) [] = rev (map demoEvent [50..<250]) \<and>
   storage (setEventos demoBrowser (\<lambda>current. map demoEvent [0..<250] @ current) demoState)
     EVENTS_KEY = Some (Events (map demoEvent [0..<200]))"
proof -
  note T = eventos_capped [of demoState demoEnv demoBrowser demoFetch
      "map (\<lambda>n. [demoEvent n]) [0..<250]" "\<lambda>current. map demoEvent [0..<250] @ current"]
  have h1: "novosEventos (cycleOf demoEnv demoFetch demoState) \<noteq> []"
    by (simp add: demo_cycle_events)
  have h2: "length (concat (map (\<lambda>n. [demoEvent n]) [0..<250])) = 250"
    by simp
  have h3: "eventos demoState = []"
    by (simp add: demoState_def)
  have a: "eventos (evaluate demoEnv demoBrowser demoFetch demoState) =
      take 200 (rev (novosEventos (cycleOf demoEnv demoFetch demoState)) @ eventos demoState)"
    using T h1 by blast
  have b: "fold (\<lambda>novos current. if novos = [] then current else pushEventos novos current)
     (map (\<lambda>n. [demoEvent n]) [0..<250]) [] =
       rev (drop 50 (concat (map (\<lambda>n. [demoEvent n]) [0..<250])))"
    using T h2 by blast
  have c: "storage (setEventos demoBrowser (\<lambda>current. map demoEvent [0..<250] @ current) demoState)
     EVENTS_KEY =
       (if map demoEvent [0..<250] @ eventos demoState = [] then None
        else Some (Events (take 200 (map demoEvent [0..<250] @ eventos demoState))))"
    using T demo_storageWorks by blast
  have d: "drop 50 (map demoEvent [0..<250]) = map demoEvent [50..<250]"
    by (simp add: drop_map)
  have e: "take 200 (map demoEvent [0..<250]) = map demoEvent [0..<200]"
    by (simp add: take_map)
  from a have "map ev_id (eventos (evaluate demoEnv demoBrowser demoFetch demoState)) =
      [''uuid-1'', ''uuid-0'']"
    by (simp add: demo_cycle_events h3)
  moreover from b d have "fold (\<lambda>novos current. if novos = [] then current else pushEventos novos current)
     (map (\<lambda>n. [demoEvent n]) [0..<250]) [] = rev (map demoEvent [50..<250])"
    by simp
  moreover from c e h3 have "storage (setEventos demoBrowser (\<lambda>current. map demoEvent [0..<250] @ current) demoState)
     EVENTS_KEY = Some (Events (map demoEvent [0..<200]))"
    by simp
  ultimately show ?thesis by blast
qed

section \<open>Persistence\<close>

lemma mirrored_setAutomacoes:
  "storageWorks b \<Longrightarrow> mirrored st \<Longrightarrow> mirrored (setAutomacoes b f st)"
  using keys_differ by (simp add: mirrored_def setAutomacoes_storage)

lemma mirrored_setEventos:
  "storageWorks b \<Longrightarrow> mirrored st \<Longrightarrow> mirrored (setEventos b f st)"
  using keys_differ by (auto simp: mirrored_def setEventos_storage)

lemma mirrored_other_fields [simp]:
  "mirrored (st\<lparr>erro := x1\<rparr>) = mirrored st"
  "mirrored (st\<lparr>abrirForm := x2\<rparr>) = mirrored st"
  "mirrored (st\<lparr>editId := x3\<rparr>) = mirrored st"
  "mirrored (st\<lparr>loading := x4\<rparr>) = mirrored st"
  "mirrored (st\<lparr>lastSeen := x5\<rparr>) = mirrored st"
  "mirrored (st\<lparr>warnings := x6\<rparr>) = mirrored st"
  "mirrored (st\<lparr>uuidCount := x7\<rparr>) = mirrored st"
  by (simp_all add: mirrored_def)

lemma mirrored_warn [simp]: "mirrored (warn msg st) = mirrored st"
  by (simp add: warn_def)

lemma mirrored_loadRules:
  "storageWorks b \<Longrightarrow> mirrored st \<Longrightarrow> mirrored (loadRules e b resp st)"
  by (cases resp) (simp_all add: loadRules_def Let_def mirrored_setAutomacoes)

lemma mirrored_evaluate:
  assumes "storageWorks b" and "mirrored st"
  shows "mirrored (evaluate e b fetch st)"
proof -
  let ?c = "cycleOf e fetch st"
  let ?st1 = "st\<lparr>lastSeen := seen ?c, uuidCount := drawn ?c, warnings := warned ?c\<rparr>"
  let ?st2 = "if updates ?c \<noteq> [] then setAutomacoes b (applyUpdates (updates ?c)) ?st1 else ?st1"
  have "mirrored ?st1" using assms(2) by simp
  then have "mirrored ?st2" using assms(1) by (simp add: mirrored_setAutomacoes)
  then have m: "mirrored (if novosEventos ?c \<noteq> [] then setEventos b (pushEventos (novosEventos ?c)) ?st2 else ?st2)"
    using assms(1) by (simp add: mirrored_setEventos)
  show ?thesis
  proof (cases "espAlvos (automacoes st) = []")
    case True
    then show ?thesis using assms(2) by (simp add: evaluate_def)
  next
    case False
    then have "evaluate e b fetch st =
        (if novosEventos ?c \<noteq> [] then setEventos b (pushEventos (novosEventos ?c)) ?st2 else ?st2)"
      by (simp add: evaluate_def cycleOf_def Let_def)
    with m show ?thesis by (simp only:)
  qed
qed

lemma mirrored_remover:
  "storageWorks b \<Longrightarrow> mirrored st \<Longrightarrow> mirrored (remover b confirmed resp a st)"
  by (cases resp) (simp_all add: remover_def Let_def mirrored_setAutomacoes)

lemma mirrored_toggleEnabled:
  "storageWorks b \<Longrightarrow> mirrored st \<Longrightarrow> mirrored (toggleEnabled b a v st)"
  by (simp add: toggleEnabled_def mirrored_setAutomacoes)

lemma mirrored_salvar:
  assumes "storageWorks b" and "mirrored st"
  shows "mirrored (salvar e b resp st)"
proof (cases "validate (form st)")
  case (Some msg)
  then show ?thesis using assms(2) by (simp add: salvar_def)
next
  case None
  show ?thesis
  proof (cases resp)
    case (Ok result)
    with None assms show ?thesis
      by (simp add: salvar_def Let_def mirrored_setAutomacoes)
  next
    case Threw
    with None assms show ?thesis
      by (simp add: salvar_def Let_def mirrored_setAutomacoes split: option.splits)
  next
    case NotOk
    with None assms show ?thesis
      by (simp add: salvar_def Let_def mirrored_setAutomacoes split: option.splits)
  qed
qed

text \<open>
  Claim C9. In a browser whose storage takes every write, \<^verbatim>\<open>setAutomacoes\<close> leaves under
  the automations key the whole new rule list, or no entry at all when the list is empty, and
  \<^verbatim>\<open>setEventos\<close> does the same under the events key with the first 200 entries of the new
  log. Every operation that changes the rule list or the log goes through these setters, so
  each of them keeps the two keys equal to the two collections.
\<close>

theorem persistence_mirrors:
  "storageWorks b \<longrightarrow>
     storage (setAutomacoes b f st) AUTOMATIONS_KEY =
       (if f (automacoes st) = [] then None else Some (Rules (f (automacoes st)))) \<and>
     storage (setEventos b g st) EVENTS_KEY =
       (if g (eventos st) = [] then None else Some (Events (take 200 (g (eventos st))))) \<and>
     (mirrored st \<longrightarrow>
        mirrored (loadRules e b rulesResp st) \<and>
        mirrored (evaluate e b fetch st) \<and>
        mirrored (remover b confirmed deleteResp automation st) \<and>
        mirrored (toggleEnabled b automation v st) \<and>
        mirrored (salvar e b postResp st))"
  by (simp add: setAutomacoes_storage setEventos_storage mirrored_loadRules mirrored_evaluate
        mirrored_remover mirrored_toggleEnabled mirrored_salvar)

lemma demo_mirrored: "mirrored demoState"
  by (simp add: mirrored_def demoState_def keys_differ [symmetric])

text \<open>On the concrete page: removing both rules removes the automations key; removing one
  rule stores the other; and the state after a cycle is mirrored.\<close>

theorem persistence_mirrors_witness:
  "storage (setAutomacoes demoBrowser (\<lambda>current. []) demoState) AUTOMATIONS_KEY = None \<and>
   storage (setAutomacoes demoBrowser (filter (\<lambda>item. ident item \<noteq> ''r1'')) demoState)
     AUTOMATIONS_KEY = Some (Rules [eveningRule]) \<and>
   storage (setEventos demoBrowser (\<lambda>current. []) demoState) EVENTS_KEY = None \<and>
   mirrored (evaluate demoEnv demoBrowser demoFetch demoState)"
proof -
  note T1 = persistence_mirrors [of demoBrowser "\<lambda>current. []" demoState "\<lambda>current. []" demoEnv NotOk
      demoFetch True NotOk hotRule True NotOk]
  note T2 = persistence_mirrors [of demoBrowser "filter (\<lambda>item. ident item \<noteq> ''r1'')" demoState
      "\<lambda>current. []" demoEnv NotOk demoFetch True NotOk hotRule True NotOk]
  have "storage (setAutomacoes demoBrowser (\<lambda>current. []) demoState) AUTOMATIONS_KEY = None"
    using T1 demo_storageWorks by simp
  moreover have "storage (setEventos demoBrowser (\<lambda>current. []) demoState) EVENTS_KEY = None"
    using T1 demo_storageWorks by simp
  moreover have "mirrored (evaluate demoEnv demoBrowser demoFetch demoState)"
    using T1 demo_storageWorks demo_mirrored by blast
  moreover have "storage (setAutomacoes demoBrowser (filter (\<lambda>item. ident item \<noteq> ''r1'')) demoState)
     AUTOMATIONS_KEY = Some (Rules [eveningRule])"
    using T2 demo_storageWorks by (simp add: demoState_def hotRule_def eveningRule_def)
  ultimately show ?thesis by blast
qed

section \<open>Deleting a rule\<close>

lemma remover_warns:
  "resp \<noteq> Ok () \<Longrightarrow>
     ''Erro ao remover regra do backend:'' \<in> set (warnings (remover b True resp a st))"
proof -
  assume r: "resp \<noteq> Ok ()"
  let ?st1 = "warn ''Erro ao remover regra do backend:'' st"
  have eq: "remover b True resp a st =
      setAutomacoes b (filter (\<lambda>item. ident item \<noteq> ident a)) ?st1"
    using r by (cases resp) (simp_all add: remover_def)
  have "''Erro ao remover regra do backend:'' \<in> set (warnings ?st1)"
    by (simp add: warn_def)
  then show ?thesis
    unfolding eq setAutomacoes_def using writeLocal_warnings by fastforce
qed

text \<open>
  Claim C8. Once the user has confirmed, \<^verbatim>\<open>remover\<close> drops from the rule list every rule
  that carries the identifier of the rule to delete, and keeps the other rules in their
  order, whatever the outcome of the \<^verbatim>\<open>DELETE\<close> request. A request that throws or is not
  OK leaves a warning on the console; the error message of the page is not touched.
  Without the confirmation \<^verbatim>\<open>remover\<close> returns before anything happens
  (\<open>remover_declined\<close>).
\<close>

theorem remover_local_removal:
  "automacoes (remover b True resp a st) =
     filter (\<lambda>item. ident item \<noteq> ident a) (automacoes st) \<and>
   (\<forall>r \<in> set (automacoes (remover b True resp a st)). ident r \<noteq> ident a) \<and>
   (\<forall>r \<in> set (automacoes st). ident r \<noteq> ident a \<longrightarrow>
      r \<in> set (automacoes (remover b True resp a st))) \<and>
   erro (remover b True resp a st) = erro st \<and>
   eventos (remover b True resp a st) = eventos st \<and>
   (resp \<noteq> Ok () \<longrightarrow>
      ''Erro ao remover regra do backend:'' \<in> set (warnings (remover b True resp a st)))"
proof -
  have 1: "automacoes (remover b True resp a st) =
     filter (\<lambda>item. ident item \<noteq> ident a) (automacoes st)"
    by (cases resp) (simp_all add: remover_def warn_def)
  have 2: "erro (remover b True resp a st) = erro st"
    by (cases resp) (simp_all add: remover_def warn_def)
  have 3: "eventos (remover b True resp a st) = eventos st"
    by (cases resp) (simp_all add: remover_def warn_def)
  show ?thesis
    using 2 3 remover_warns [of resp b a st] by (simp add: 1)
qed

lemma remover_declined: "remover b False resp a st = st"
  by (simp add: remover_def)

text \<open>Deleting the alert of the concrete page while the backend is unreachable.\<close>

theorem remover_local_removal_witness:
  "automacoes (remover demoBrowser True Threw hotRule demoState) = [eveningRule] \<and>
   erro (remover demoBrowser True Threw hotRule demoState) = [] \<and>
   ''Erro ao remover regra do backend:'' \<in>
     set (warnings (remover demoBrowser True Threw hotRule demoState))"
proof -
  note T = remover_local_removal [of demoBrowser Threw hotRule demoState]
  have h: "(Threw :: unit response) \<noteq> Ok ()" by simp
  have "automacoes (remover demoBrowser True Threw hotRule demoState) =
      filter (\<lambda>item. ident item \<noteq> ident hotRule) (automacoes demoState)"
    using T by blast
  then have "automacoes (remover demoBrowser True Threw hotRule demoState) = [eveningRule]"
    by (simp add: demoState_def hotRule_def eveningRule_def)
  moreover have "erro (remover demoBrowser True Threw hotRule demoState) = erro demoState"
    using T by blast
  moreover have "''Erro ao remover regra do backend:'' \<in>
     set (warnings (remover demoBrowser True Threw hotRule demoState))"
    using T h by blast
  ultimately show ?thesis by (simp add: demoState_def)
qed

section \<open>Saving a rule\<close>

text \<open>
  Claim C7. \<^verbatim>\<open>salvar\<close> accepts a form exactly when its name and its device are not blank
  and, for an alert, its metric key is present and not blank, its operator is present and its
  threshold is a number other than NaN. A rejected form gets the message of the first check
  that fails, and \<^verbatim>\<open>salvar\<close> then changes nothing but the error message: the rule list and
  the storage stay as they are. An alert whose metric key is missing or empty is always
  rejected, with the message of the metric when name and device are filled in.
\<close>

theorem salvar_validation:
  "(validate f = None \<longleftrightarrow>
      trim (name f) \<noteq> [] \<and> trim (espId f) \<noteq> [] \<and>
      (kind f = Alert \<longrightarrow>
         (\<exists>k. metricKey f = Some k \<and> trim k \<noteq> []) \<and> operador f \<noteq> None \<and>
         (\<exists>t. threshold f = Some t \<and> \<not> isNaN t))) \<and>
   (\<forall>msg. validate (form st) = Some msg \<longrightarrow>
      salvar e b resp st = st\<lparr>erro := msg\<rparr> \<and>
      automacoes (salvar e b resp st) = automacoes st \<and>
      storage (salvar e b resp st) = storage st \<and>
      msg \<in> {''informe um nome'', ''selecione um dispositivo'', ''informe a metrica'',
              ''selecione o operador'', ''informe o valor de limiar''}) \<and>
   (trim (name f) = [] \<longrightarrow> validate f = Some ''informe um nome'') \<and>
   (trim (name f) \<noteq> [] \<and> trim (espId f) = [] \<longrightarrow>
      validate f = Some ''selecione um dispositivo'') \<and>
   (trim (name f) \<noteq> [] \<and> trim (espId f) \<noteq> [] \<and> kind f = Alert \<and>
    (metricKey f = None \<or> (\<exists>k. metricKey f = Some k \<and> trim k = [])) \<longrightarrow>
      validate f = Some ''informe a metrica'') \<and>
   (trim (name f) \<noteq> [] \<and> trim (espId f) \<noteq> [] \<and> kind f = Alert \<and>
    (\<exists>k. metricKey f = Some k \<and> trim k \<noteq> []) \<and> operador f = None \<longrightarrow>
      validate f = Some ''selecione o operador'') \<and>
   (trim (name f) \<noteq> [] \<and> trim (espId f) \<noteq> [] \<and> kind f = Alert \<and>
    (\<exists>k. metricKey f = Some k \<and> trim k \<noteq> []) \<and> operador f \<noteq> None \<and>
    (threshold f = None \<or> threshold f = Some NaN) \<longrightarrow>
      validate f = Some ''informe o valor de limiar'') \<and>
   (kind f = Alert \<and> (metricKey f = None \<or> metricKey f = Some []) \<longrightarrow> validate f \<noteq> None)"
proof -
  have 1: "validate f = None \<longleftrightarrow>
      trim (name f) \<noteq> [] \<and> trim (espId f) \<noteq> [] \<and>
      (kind f = Alert \<longrightarrow>
         (\<exists>k. metricKey f = Some k \<and> trim k \<noteq> []) \<and> operador f \<noteq> None \<and>
         (\<exists>t. threshold f = Some t \<and> \<not> isNaN t))"
    by (auto simp: validate_def split: option.splits)
  have 2: "\<And>msg. validate (form st) = Some msg \<Longrightarrow> salvar e b resp st = st\<lparr>erro := msg\<rparr>"
    by (simp add: salvar_def)
  have 3: "\<And>msg. validate (form st) = Some msg \<Longrightarrow>
      msg \<in> {''informe um nome'', ''selecione um dispositivo'', ''informe a metrica'',
              ''selecione o operador'', ''informe o valor de limiar''}"
    unfolding validate_def by (auto split: if_splits)
  have 4: "trim (name f) = [] \<Longrightarrow> validate f = Some ''informe um nome''"
    by (simp add: validate_def)
  have 5: "trim (name f) \<noteq> [] \<and> trim (espId f) = [] \<Longrightarrow>
      validate f = Some ''selecione um dispositivo''"
    by (simp add: validate_def)
  have 6: "trim (name f) \<noteq> [] \<and> trim (espId f) \<noteq> [] \<and> kind f = Alert \<and>
    (metricKey f = None \<or> (\<exists>k. metricKey f = Some k \<and> trim k = [])) \<Longrightarrow>
      validate f = Some ''informe a metrica''"
    by (auto simp: validate_def)
  have 7: "trim (name f) \<noteq> [] \<and> trim (espId f) \<noteq> [] \<and> kind f = Alert \<and>
    (\<exists>k. metricKey f = Some k \<and> trim k \<noteq> []) \<and> operador f = None \<Longrightarrow>
      validate f = Some ''selecione o operador''"
    by (auto simp: validate_def)
  have 8: "trim (name f) \<noteq> [] \<and> trim (espId f) \<noteq> [] \<and> kind f = Alert \<and>
    (\<exists>k. metricKey f = Some k \<and> trim k \<noteq> []) \<and> operador f \<noteq> None \<and>
    (threshold f = None \<or> threshold f = Some NaN) \<Longrightarrow>
      validate f = Some ''informe o valor de limiar''"
    by (auto simp: validate_def)
  have 9: "kind f = Alert \<and> (metricKey f = None \<or> metricKey f = Some []) \<Longrightarrow> validate f \<noteq> None"
    by (auto simp: validate_def trim_def)
  have all: "\<forall>msg. validate (form st) = Some msg \<longrightarrow>
      salvar e b resp st = st\<lparr>erro := msg\<rparr> \<and>
      automacoes (salvar e b resp st) = automacoes st \<and>
      storage (salvar e b resp st) = storage st \<and>
      msg \<in> {''informe um nome'', ''selecione um dispositivo'', ''informe a metrica'',
              ''selecione o operador'', ''informe o valor de limiar''}"
    using 2 3 by simp
  show ?thesis
    using 1 all 4 5 6 7 8 9 by blast
qed


text \<open>On the concrete page: the form with the empty metric key is rejected with the message
  of the metric, whatever the backend would answer, and the rule list stays; the alert rule
  itself passes the checks.\<close>

theorem salvar_validation_witness:
  "validate blankMetricForm = Some ''informe a metrica'' \<and>
   salvar demoEnv demoBrowser (Ok \<lparr> rule_uid = Some ''b1'', rule_id = None \<rparr>) demoFormState =
     demoFormState\<lparr>erro := ''informe a metrica''\<rparr> \<and>
   automacoes (salvar demoEnv demoBrowser (Ok \<lparr> rule_uid = Some ''b1'', rule_id = None \<rparr>)
     demoFormState) = [hotRule, eveningRule] \<and>
   validate hotRule = None"
proof -
  note T = salvar_validation [of blankMetricForm demoFormState demoEnv demoBrowser
      "Ok \<lparr> rule_uid = Some ''b1'', rule_id = None \<rparr>"]
  note U = salvar_validation [of hotRule demoFormState demoEnv demoBrowser
      "Ok \<lparr> rule_uid = Some ''b1'', rule_id = None \<rparr>"]
  have trims: "trim ''Quente'' = ''Quente''" "trim ''esp1'' = ''esp1''"
    "trim ''temperatura'' = ''temperatura''" "trim [] = []"
    by (simp_all add: trim_def isWhiteSpace_def)
  have h: "trim (name blankMetricForm) \<noteq> [] \<and> trim (espId blankMetricForm) \<noteq> [] \<and>
      kind blankMetricForm = Alert \<and>
      (metricKey blankMetricForm = None \<or>
       (\<exists>k. metricKey blankMetricForm = Some k \<and> trim k = []))"
    by (simp add: blankMetricForm_def hotRule_def trims)
  have v: "validate blankMetricForm = Some ''informe a metrica''"
    using T [THEN conjunct2, THEN conjunct2, THEN conjunct2, THEN conjunct2, THEN conjunct1] h
    by (rule mp)
  then have v': "validate (form demoFormState) = Some ''informe a metrica''"
    by (simp add: demoFormState_def)
  have s: "salvar demoEnv demoBrowser (Ok \<lparr> rule_uid = Some ''b1'', rule_id = None \<rparr>) demoFormState =
      demoFormState\<lparr>erro := ''informe a metrica''\<rparr> \<and>
    automacoes (salvar demoEnv demoBrowser (Ok \<lparr> rule_uid = Some ''b1'', rule_id = None \<rparr>)
      demoFormState) = automacoes demoFormState"
  proof -
    note W = T [THEN conjunct2, THEN conjunct1, rule_format, OF v']
    show ?thesis
      using W [THEN conjunct1] W [THEN conjunct2, THEN conjunct1] by (rule conjI)
  qed
  have g: "trim (name hotRule) \<noteq> [] \<and> trim (espId hotRule) \<noteq> [] \<and>
      (kind hotRule = Alert \<longrightarrow>
         (\<exists>k. metricKey hotRule = Some k \<and> trim k \<noteq> []) \<and> operador hotRule \<noteq> None \<and>
         (\<exists>t. threshold hotRule = Some t \<and> \<not> isNaN t))"
    by (simp add: hotRule_def trims)
  have "validate hotRule = None"
    using U [THEN conjunct1] g by (rule iffD2)
  with v s show ?thesis
    by (simp add: demoFormState_def demoState_def)
qed

section \<open>Merging local and backend rules\<close>

lemma find_snoc:
  "find P (xs @ [x]) = (case find P xs of Some y \<Rightarrow> Some y | None \<Rightarrow> if P x then Some x else None)"
  by (induction xs) auto

lemma lastWithId_Cons:
  "lastWithId (x # xs) i =
     (case lastWithId xs i of Some r \<Rightarrow> Some r | None \<Rightarrow> if ident x = i then Some x else None)"
  by (simp add: lastWithId_def find_snoc)

lemma lastWithId_Nil [simp]: "lastWithId [] i = None"
  by (simp add: lastWithId_def)

lemma lastWithId_append:
  "lastWithId (xs @ ys) i =
     (case lastWithId ys i of Some r \<Rightarrow> Some r | None \<Rightarrow> lastWithId xs i)"
  by (induction xs) (auto simp: lastWithId_Cons split: option.splits)

lemma find_SomeD: "find P xs = Some x \<Longrightarrow> x \<in> set xs \<and> P x"
  by (induction xs) (auto split: if_splits)

lemma lastWithId_SomeD: "lastWithId xs i = Some r \<Longrightarrow> r \<in> set xs \<and> ident r = i"
  using find_SomeD [of "\<lambda>rule. ident rule = i" "rev xs" r] by (simp add: lastWithId_def)

lemma lastWithId_None_iff: "lastWithId xs i = None \<longleftrightarrow> i \<notin> ident ` set xs"
  by (auto simp: lastWithId_def find_None_iff)

lemma lastWithId_distinct:
  "distinct (map ident xs) \<Longrightarrow> r \<in> set xs \<Longrightarrow> lastWithId xs (ident r) = Some r"
proof (induction xs)
  case Nil
  then show ?case by simp
next
  case (Cons x xs)
  show ?case
  proof (cases "r \<in> set xs")
    case True
    with Cons show ?thesis by (simp add: lastWithId_Cons)
  next
    case False
    with Cons.prems have "r = x" and "ident x \<notin> ident ` set xs" by auto
    then show ?thesis
      using lastWithId_None_iff [of xs "ident x"] by (simp add: lastWithId_Cons)
  qed
qed

lemma fold_mergeLocal_map_of:
  "map_of (fold mergeLocal xs m) i =
     (case lastWithId xs i of Some r \<Rightarrow> Some r | None \<Rightarrow> map_of m i)"
proof (induction xs arbitrary: m)
  case Nil
  then show ?case by simp
next
  case (Cons x xs)
  have "map_of (mergeLocal x m) i = (if ident x = i then Some x else map_of m i)"
    by (simp add: mergeLocal_def update_conv')
  with Cons.IH [of "mergeLocal x m"] show ?case
    by (simp add: lastWithId_Cons split: option.splits)
qed

lemma fold_mergeLocal_distinct:
  "distinct (map fst m) \<Longrightarrow> distinct (map fst (fold mergeLocal xs m))"
  by (induction xs arbitrary: m) (simp_all add: mergeLocal_def distinct_update)

lemma fold_mergeLocal_keys:
  "\<forall>p \<in> set m. ident (snd p) = fst p \<Longrightarrow>
     \<forall>p \<in> set (fold mergeLocal xs m). ident (snd p) = fst p"
proof (induction xs arbitrary: m)
  case Nil
  then show ?case by simp
next
  case (Cons x xs)
  have "set (mergeLocal x m) \<subseteq> insert (ident x, x) (set m)"
    unfolding mergeLocal_def by (induction m) auto
  with Cons.prems have "\<forall>p \<in> set (mergeLocal x m). ident (snd p) = fst p"
    by auto
  with Cons.IH [of "mergeLocal x m"] show ?case by simp
qed

lemma mergeBackend_fold:
  "fst (fold (mergeBackend uuid) rules (m, n)) = fold mergeLocal (convertAll uuid n rules) m"
  by (induction rules arbitrary: m n) (simp_all add: mergeBackend_def mergeLocal_def Let_def)

lemma mergeRules_fold:
  "fst (mergeRules uuid n locals rules) = fold mergeLocal (locals @ convertAll uuid n rules) []"
  by (simp add: mergeRules_def mergeBackend_fold)

lemma merged_member:
  "r \<in> set (map snd (fold mergeLocal xs [])) \<longleftrightarrow> lastWithId xs (ident r) = Some r"
proof -
  let ?m = "fold mergeLocal xs []"
  have d: "distinct (map fst ?m)" by (rule fold_mergeLocal_distinct) simp
  have k: "\<forall>p \<in> set ?m. ident (snd p) = fst p" by (rule fold_mergeLocal_keys) simp
  have "r \<in> set (map snd ?m) \<longleftrightarrow> (ident r, r) \<in> set ?m"
    using k by force
  also have "\<dots> \<longleftrightarrow> map_of ?m (ident r) = Some r"
    using d by simp
  also have "\<dots> \<longleftrightarrow> lastWithId xs (ident r) = Some r"
    by (simp add: fold_mergeLocal_map_of split: option.splits)
  finally show ?thesis .
qed

lemma merged_distinct: "distinct (map ident (map snd (fold mergeLocal xs [])))"
proof -
  let ?m = "fold mergeLocal xs []"
  have d: "distinct (map fst ?m)" by (rule fold_mergeLocal_distinct) simp
  have k: "\<forall>p \<in> set ?m. ident (snd p) = fst p" by (rule fold_mergeLocal_keys) simp
  have eq: "map ident (map snd ?m) = map fst ?m"
    using k by simp
  show ?thesis unfolding eq using d .
qed

lemma loadRules_automacoes:
  "automacoes (loadRules e b (Ok rules) st) =
     map snd (fold mergeLocal (automacoes st @ convertAll (randomUUID e) (uuidCount st) rules) [])"
  by (simp add: loadRules_def Let_def mergeRules_fold)

text \<open>
  Claim C6. With the backend answering, \<^verbatim>\<open>loadRules\<close> replaces the rule list by the values
  of a map keyed by identifier into which the local rules went first and the converted backend
  rules second. The result has one rule per identifier of either source; each of its rules is
  the last one inserted under its identifier, so an identifier of the backend yields the
  backend copy and an identifier that only the local list has yields the local rule. When
  the backend cannot be reached or does not answer OK the rule list stays as it is.
\<close>

theorem loadRules_merge:
  fixes e :: "('r, 'v) env" and b :: browser and st :: state
    and backendRules :: "BackendRule list"
  defines "B \<equiv> convertAll (randomUUID e) (uuidCount st) backendRules"
  defines "result \<equiv> automacoes (loadRules e b (Ok backendRules) st)"
  shows
  "distinct (map ident result) \<and>
   ident ` set result = ident ` set (automacoes st) \<union> ident ` set B \<and>
   (\<forall>r \<in> set result. lastWithId (automacoes st @ B) (ident r) = Some r) \<and>
   (\<forall>i \<in> ident ` set B. \<exists>r \<in> set result. ident r = i \<and> lastWithId B i = Some r) \<and>
   (\<forall>i \<in> ident ` set (automacoes st). i \<notin> ident ` set B \<longrightarrow>
      (\<exists>r \<in> set result. ident r = i \<and> lastWithId (automacoes st) i = Some r)) \<and>
   (\<forall>r \<in> set B. distinct (map ident B) \<longrightarrow> r \<in> set result) \<and>
   (\<forall>r \<in> set (automacoes st). distinct (map ident (automacoes st)) \<and> ident r \<notin> ident ` set B \<longrightarrow>
      r \<in> set result) \<and>
   automacoes (loadRules e b Threw st) = automacoes st \<and>
   automacoes (loadRules e b NotOk st) = automacoes st"
proof -
  let ?L = "automacoes st"
  have res: "result = map snd (fold mergeLocal (?L @ B) [])"
    by (simp add: result_def B_def loadRules_automacoes)
  have mem: "\<And>r. r \<in> set result \<longleftrightarrow> lastWithId (?L @ B) (ident r) = Some r"
    unfolding res by (rule merged_member)
  have 1: "distinct (map ident result)"
    unfolding res by (rule merged_distinct)
  have 3: "\<forall>r \<in> set result. lastWithId (?L @ B) (ident r) = Some r"
    using mem by blast
  have 4: "\<forall>i \<in> ident ` set B. \<exists>r \<in> set result. ident r = i \<and> lastWithId B i = Some r"
  proof
    fix i assume "i \<in> ident ` set B"
    then obtain r where r: "lastWithId B i = Some r"
      using lastWithId_None_iff [of B i] by (cases "lastWithId B i") auto
    then have "ident r = i" using lastWithId_SomeD by blast
    moreover have "lastWithId (?L @ B) (ident r) = Some r"
      using r \<open>ident r = i\<close> by (simp add: lastWithId_append)
    ultimately show "\<exists>r \<in> set result. ident r = i \<and> lastWithId B i = Some r"
      using r mem by blast
  qed
  have 5: "\<forall>i \<in> ident ` set ?L. i \<notin> ident ` set B \<longrightarrow>
      (\<exists>r \<in> set result. ident r = i \<and> lastWithId ?L i = Some r)"
  proof (intro ballI impI)
    fix i assume i: "i \<in> ident ` set ?L" "i \<notin> ident ` set B"
    then obtain r where r: "lastWithId ?L i = Some r"
      using lastWithId_None_iff [of ?L i] by (cases "lastWithId ?L i") auto
    then have "ident r = i" using lastWithId_SomeD by blast
    moreover have "lastWithId B i = None"
      using i(2) by (simp add: lastWithId_None_iff)
    then have "lastWithId (?L @ B) (ident r) = Some r"
      using r \<open>ident r = i\<close> by (simp add: lastWithId_append)
    ultimately show "\<exists>r \<in> set result. ident r = i \<and> lastWithId ?L i = Some r"
      using r mem by blast
  qed
  have 2: "ident ` set result = ident ` set ?L \<union> ident ` set B"
  proof
    show "ident ` set result \<subseteq> ident ` set ?L \<union> ident ` set B"
    proof
      fix i assume "i \<in> ident ` set result"
      then obtain r where "r \<in> set result" "ident r = i" by auto
      with 3 have "lastWithId (?L @ B) i = Some r" by auto
      then have "r \<in> set (?L @ B)" using lastWithId_SomeD by blast
      with \<open>ident r = i\<close> show "i \<in> ident ` set ?L \<union> ident ` set B" by auto
    qed
    show "ident ` set ?L \<union> ident ` set B \<subseteq> ident ` set result"
    proof
      fix i assume i: "i \<in> ident ` set ?L \<union> ident ` set B"
      show "i \<in> ident ` set result"
      proof (cases "i \<in> ident ` set B")
        case True
        with 4 obtain r where "r \<in> set result" "ident r = i" by blast
        then show ?thesis by auto
      next
        case False
        with i 5 obtain r where "r \<in> set result" "ident r = i" by blast
        then show ?thesis by auto
      qed
    qed
  qed
  have 6: "\<forall>r \<in> set B. distinct (map ident B) \<longrightarrow> r \<in> set result"
    using mem by (simp add: lastWithId_append lastWithId_distinct)
  have 7: "\<forall>r \<in> set ?L. distinct (map ident ?L) \<and> ident r \<notin> ident ` set B \<longrightarrow> r \<in> set result"
  proof (intro ballI impI)
    fix r assume r: "r \<in> set ?L" "distinct (map ident ?L) \<and> ident r \<notin> ident ` set B"
    then have "lastWithId B (ident r) = None" by (simp add: lastWithId_None_iff)
    moreover have "lastWithId ?L (ident r) = Some r"
      using r by (simp add: lastWithId_distinct)
    ultimately show "r \<in> set result"
      using mem by (simp add: lastWithId_append)
  qed
  have 8: "automacoes (loadRules e b Threw st) = automacoes st"
    and 9: "automacoes (loadRules e b NotOk st) = automacoes st"
    by (simp_all add: loadRules_def warn_def)
  from 1 2 3 4 5 6 7 8 9 show ?thesis by blast
qed

lemma demo_converted:
  "convertAll (randomUUID demoEnv) (uuidCount demoState) demoBackendRules = [calorRule, bareRule]"
  by (simp add: demoBackendRules_def demoEnv_def demoState_def toAutomacao_def backendId_def
        calorRule_def bareRule_def hotRule_def strOr_def digits.simps digitChar_def)

text \<open>On the concrete page the backend copy of \<open>r1\<close> replaces the local one, the local
  schedule \<open>r2\<close> stays, and the backend rule without identifier is added.\<close>

theorem loadRules_merge_witness:
  "calorRule \<in> set (automacoes (loadRules demoEnv demoBrowser (Ok demoBackendRules) demoState)) \<and>
   bareRule \<in> set (automacoes (loadRules demoEnv demoBrowser (Ok demoBackendRules) demoState)) \<and>
   eveningRule \<in> set (automacoes (loadRules demoEnv demoBrowser (Ok demoBackendRules) demoState)) \<and>
   hotRule \<notin> set (automacoes (loadRules demoEnv demoBrowser (Ok demoBackendRules) demoState))"
proof -
  let ?result = "automacoes (loadRules demoEnv demoBrowser (Ok demoBackendRules) demoState)"
  note T = loadRules_merge [where e = demoEnv and b = demoBrowser and st = demoState
      and backendRules = demoBackendRules,
      unfolded demo_converted]
  have L: "automacoes demoState = [hotRule, eveningRule]"
    by (simp add: demoState_def)
  have ids: "ident hotRule = ''r1''" "ident eveningRule = ''r2''" "ident calorRule = ''r1''"
    "ident bareRule = ''uuid-0''"
    by (simp_all add: hotRule_def eveningRule_def calorRule_def bareRule_def)
  have dB: "distinct (map ident [calorRule, bareRule])"
    by (simp add: ids)
  have dL: "distinct (map ident (automacoes demoState)) \<and>
      ident eveningRule \<notin> ident ` set [calorRule, bareRule]"
    by (simp add: L ids)
  have inB: "calorRule \<in> set [calorRule, bareRule]" "bareRule \<in> set [calorRule, bareRule]"
    by simp_all
  have inL: "eveningRule \<in> set (automacoes demoState)"
    by (simp add: L)
  note T6 = T [THEN conjunct2, THEN conjunct2, THEN conjunct2, THEN conjunct2, THEN conjunct2,
      THEN conjunct1]
  note T7 = T [THEN conjunct2, THEN conjunct2, THEN conjunct2, THEN conjunct2, THEN conjunct2,
      THEN conjunct2, THEN conjunct1]
  note T1 = T [THEN conjunct1]
  have a: "calorRule \<in> set ?result"
    using T6 [rule_format, OF inB(1) dB] .
  have b: "bareRule \<in> set ?result"
    using T6 [rule_format, OF inB(2) dB] .
  have c: "eveningRule \<in> set ?result"
    using T7 [rule_format, OF inL dL] .
  have ne: "hotRule \<noteq> calorRule"
    by (simp add: calorRule_def hotRule_def)
  have d: "hotRule \<notin> set ?result"
  proof
    assume "hotRule \<in> set ?result"
    with a T1 ne ids show False
      by (auto simp: distinct_map inj_on_def)
  qed
  from a b c d show ?thesis by blast
qed

section \<open>One cycle, one rule\<close>

lemma ruleLoop_keeps_events:
  "ev \<in> set (novosEventos c) \<Longrightarrow> ev \<in> set (novosEventos (ruleLoop e ts d flat as c))"
  using ruleLoop_events [of e ts d flat as c] by auto

lemma ruleLoop_emits:
  assumes "a \<in> set as"
    and "\<And>c. evalRule e ts d flat a c = fire e ts d nm txt (ident a) c"
  shows "\<exists>ev \<in> set (novosEventos (ruleLoop e ts d flat as c)).
           ev_ts ev = ts \<and> ev_espId ev = d \<and> ev_name ev = nm \<and> ev_text ev = txt"
proof -
  from assms(1) obtain pre post where as: "as = pre @ a # post"
    by (auto dest: split_list)
  let ?c1 = "ruleLoop e ts d flat pre c"
  let ?ev = "\<lparr> ev_id = randomUUID e (drawn ?c1), ev_ts = ts, ev_espId = d,
               ev_name = nm, ev_text = txt \<rparr>"
  have "?ev \<in> set (novosEventos (evalRule e ts d flat a ?c1))"
    by (simp add: assms(2))
  then have "?ev \<in> set (novosEventos (ruleLoop e ts d flat post (evalRule e ts d flat a ?c1)))"
    by (rule ruleLoop_keeps_events)
  then have "?ev \<in> set (novosEventos (ruleLoop e ts d flat as c))"
    by (simp add: as ruleLoop_append)
  then show ?thesis by force
qed

lemma deviceLoop_append:
  "deviceLoop e fetch rules (xs @ ys) c =
     deviceLoop e fetch rules ys (deviceLoop e fetch rules xs c)"
  by (simp add: deviceLoop_def)

lemma deviceLoop_keeps_events:
  "distinct devs \<Longrightarrow> ev \<in> set (novosEventos c) \<Longrightarrow>
     ev \<in> set (novosEventos (deviceLoop e fetch rules devs c))"
  using deviceLoop_events [of devs e fetch rules c] by auto

lemma deviceLoop_emits:
  assumes "distinct devs" and "d \<in> set devs" and "processed e fetch (seen c) d"
    and "a \<in> set rules" and "enabled a" and "espId a = d"
    and "\<And>c. evalRule e (readingTs e fetch d) d (readingFlat e fetch d) a c =
            fire e (readingTs e fetch d) d nm txt (ident a) c"
  shows "\<exists>ev \<in> set (novosEventos (deviceLoop e fetch rules devs c)).
           ev_ts ev = readingTs e fetch d \<and> ev_espId ev = d \<and> ev_name ev = nm \<and> ev_text ev = txt"
proof -
  from assms(2) obtain pre post where devs: "devs = pre @ d # post"
    by (auto dest: split_list)
  with assms(1) have dpre: "distinct pre" and dpost: "distinct post" and notin: "d \<notin> set pre"
    by auto
  let ?c1 = "deviceLoop e fetch rules pre c"
  have "seen ?c1 d = seen c d"
    using deviceLoop_seen [OF dpre, of e fetch rules c d] notin by simp
  then have proc: "processed e fetch (seen ?c1) d"
    using assms(3) processed_cong by blast
  have act: "a \<in> set (filter (\<lambda>x. enabled x \<and> espId x = d) rules)"
    using assms(4-6) by simp
  let ?c2 = "?c1\<lparr>seen := (seen ?c1)(d \<mapsto> readingTs e fetch d)\<rparr>"
  have step: "evalDevice e fetch rules d ?c1 =
      ruleLoop e (readingTs e fetch d) d (readingFlat e fetch d)
        (filter (\<lambda>x. enabled x \<and> espId x = d) rules) ?c2"
    using proc by (simp add: evalDevice_cases)
  obtain ev where ev: "ev \<in> set (novosEventos (evalDevice e fetch rules d ?c1))"
      "ev_ts ev = readingTs e fetch d \<and> ev_espId ev = d \<and> ev_name ev = nm \<and> ev_text ev = txt"
    unfolding step using ruleLoop_emits [OF act assms(7), of ?c2] by blast
  have "ev \<in> set (novosEventos (deviceLoop e fetch rules post (evalDevice e fetch rules d ?c1)))"
    using dpost ev(1) by (rule deviceLoop_keeps_events)
  then have "ev \<in> set (novosEventos (deviceLoop e fetch rules devs c))"
    by (simp add: devs deviceLoop_append)
  with ev(2) show ?thesis by blast
qed

lemma distinct_ident_unique:
  "distinct (map ident rules) \<Longrightarrow> r \<in> set rules \<Longrightarrow>
     \<forall>a \<in> set rules. ident a = ident r \<longrightarrow> a = r"
  by (auto simp: distinct_map inj_on_def)

lemma startCycle_fields [simp]:
  "updates (startCycle st) = []"
  "novosEventos (startCycle st) = []"
  "seen (startCycle st) = lastSeen st"
  by (simp_all add: startCycle_def)

text \<open>What a cycle records for a rule whose identifier no other rule carries.\<close>

lemma cycle_updates:
  assumes "distinct (map ident (automacoes st))" and "r \<in> set (automacoes st)"
  shows "map_of (updates (cycleOf e fetch st)) (ident r) =
       (if enabled r \<and> espId r \<noteq> [] \<and> processed e fetch (lastSeen st) (espId r) \<and>
           fires e (readingTs e fetch (espId r)) (readingFlat e fetch (espId r)) r
        then Some (readingTs e fetch (espId r)) else None)"
proof -
  have "espId r \<in> set (espAlvos (automacoes st)) \<longleftrightarrow> enabled r \<and> espId r \<noteq> []"
    if "enabled r"
    using that assms(2) by (auto simp: set_espAlvos)
  then show ?thesis
    unfolding cycleOf_def
    using deviceLoop_updates [OF distinct_espAlvos assms(2) distinct_ident_unique [OF assms],
        where e = e and fetch = fetch and c = "startCycle st"]
    by auto
qed

lemma cycle_events:
  "\<exists>news. novosEventos (cycleOf e fetch st) = news \<and>
     (\<forall>ev \<in> set news. processed e fetch (lastSeen st) (ev_espId ev) \<and>
         ev_ts ev = readingTs e fetch (ev_espId ev)) \<and>
     (\<forall>d. length (filter (\<lambda>ev. ev_espId ev = d) news) =
         (if d \<in> set (espAlvos (automacoes st)) \<and> processed e fetch (lastSeen st) d
          then length (filter (\<lambda>a. enabled a \<and> espId a = d \<and>
                 fires e (readingTs e fetch d) (readingFlat e fetch d) a) (automacoes st))
          else 0))"
  unfolding cycleOf_def
  using deviceLoop_events [OF distinct_espAlvos, where e = e and fetch = fetch
      and rules = "automacoes st" and c = "startCycle st"]
  by auto


lemma applyUpdates_untouched:
  "r \<in> set current \<Longrightarrow> map_of ups (ident r) = None \<Longrightarrow> r \<in> set (applyUpdates ups current)"
  by (force simp: applyUpdates_def)

lemma applyUpdates_touched:
  "r \<in> set current \<Longrightarrow> map_of ups (ident r) = Some t \<Longrightarrow>
     r\<lparr>lastTriggered := Some t\<rparr> \<in> set (applyUpdates ups current)"
  by (force simp: applyUpdates_def)

lemma cycle_event_devices:
  "ev \<in> set (novosEventos (cycleOf e fetch st)) \<Longrightarrow>
     ev_espId ev \<in> set (espAlvos (automacoes st)) \<and>
     processed e fetch (lastSeen st) (ev_espId ev) \<and>
     ev_ts ev = readingTs e fetch (ev_espId ev)"
  unfolding cycleOf_def
  using deviceLoop_events [OF distinct_espAlvos, where e = e and fetch = fetch
      and rules = "automacoes st" and c = "startCycle st"]
  by auto









section \<open>Duplicate polls\<close>



section \<open>Alert rules\<close>

lemma filter_eq_single: "distinct xs \<Longrightarrow> r \<in> set xs \<Longrightarrow> filter (\<lambda>a. a = r) xs = [r]"
proof (induction xs)
  case Nil
  then show ?case by simp
next
  case (Cons x xs)
  show ?case
  proof (cases "x = r")
    case True
    with Cons.prems have "r \<notin> set xs" by simp
    then have "filter (\<lambda>a. a = r) xs = []" by (auto simp: filter_empty_conv)
    with True show ?thesis by simp
  next
    case False
    with Cons.prems have "distinct xs" "r \<in> set xs" by auto
    then have "filter (\<lambda>a. a = r) xs = [r]" by (rule Cons.IH)
    with False show ?thesis by simp
  qed
qed

lemma filter_only:
  assumes "distinct xs" and "r \<in> set xs" and "P r" and "\<forall>a \<in> set xs. P a \<longrightarrow> a = r"
  shows "filter P xs = [r]"
proof -
  have "\<And>a. a \<in> set xs \<Longrightarrow> P a = (a = r)"
    using assms(3,4) by blast
  then have "filter P xs = filter (\<lambda>a. a = r) xs"
    by (rule filter_cong [OF refl])
  with assms(1,2) show ?thesis by (simp only: filter_eq_single)
qed

text \<open>
  Claim C2. Take an enabled alert rule with operator \<^verbatim>\<open>>\<close> and a threshold, among rules
  with distinct identifiers, whose device answers with a reading that the cycle processes and
  whose metric resolves to a finite value (the evaluator takes a value for numeric when
  \<^verbatim>\<open>Number.isFinite\<close> holds of it) greater than the threshold. Then the loop body, run
  on that rule, appends exactly one event (timestamp of the reading, device of the rule, name
  of the rule or \<^verbatim>\<open>Automacao\<close>, and the text built from name, metric key, operator,
  threshold and value) and records the timestamp under the identifier of the rule. Over the
  run of \<^verbatim>\<open>evaluate\<close>: the update recorded for the rule is the timestamp of the reading,
  the entry of the rule in the rule list becomes the rule with that \<open>lastTriggered\<close>, the
  event is among those emitted, the events about the device are as many as the enabled rules
  of the device that fire on the reading, all with the timestamp of the reading, and there is
  exactly one such event when the rule is alone on its device.
\<close>

theorem alert_gt_fires:
  fixes e :: "('r, 'v) env" and b :: browser
  assumes member: "r \<in> set (automacoes st)"
    and ids: "distinct (map ident (automacoes st))"
    and rule: "enabled r" "kind r = Alert" "operador r = Some Gt" "threshold r = Some th"
      "espId r \<noteq> []"
    and reading: "fetch (espId r) = Ok (Some payload)" "ts = pickTimestamp e payload 0"
      "ts \<noteq> 0" "orZero (lastSeen st (espId r)) < ts"
    and val: "numericValue e (resolveMetricValue (normalizeKey e) (extractPayloadMaps e payload)
        (metricKey r)) = Fin v" "num_gt (Fin v) th"
  shows
   "(\<forall>c. evalRule e ts (espId r) (extractPayloadMaps e payload) r c =
      c\<lparr> novosEventos := novosEventos c @
            [\<lparr> ev_id = randomUUID e (drawn c), ev_ts = ts, ev_espId = espId r,
               ev_name = strOr (name r) ''Automacao'',
               ev_text = strOr (name r) ''Automacao'' @ '' disparada: '' @
                 optStrOr (metricKey r) ''valor'' @ '' > '' @ numberToString e th @
                 '' (valor '' @ numberToString e (Fin v) @ '')'' \<rparr>],
         updates := AList.update (ident r) ts (updates c),
         drawn := Suc (drawn c) \<rparr>) \<and>
    map_of (updates (cycleOf e fetch st)) (ident r) = Some ts \<and>
    (\<forall>i < length (automacoes st). automacoes st ! i = r \<longrightarrow>
       automacoes (evaluate e b fetch st) ! i = r\<lparr>lastTriggered := Some ts\<rparr>) \<and>
    (\<exists>ev \<in> set (novosEventos (cycleOf e fetch st)).
       ev_ts ev = ts \<and> ev_espId ev = espId r \<and> ev_name ev = strOr (name r) ''Automacao'' \<and>
       ev_text ev = strOr (name r) ''Automacao'' @ '' disparada: '' @
         optStrOr (metricKey r) ''valor'' @ '' > '' @ numberToString e th @
         '' (valor '' @ numberToString e (Fin v) @ '')'') \<and>
    length (filter (\<lambda>ev. ev_espId ev = espId r) (novosEventos (cycleOf e fetch st))) =
      length (filter (\<lambda>a. enabled a \<and> espId a = espId r \<and>
                fires e ts (extractPayloadMaps e payload) a) (automacoes st)) \<and>
    (\<forall>ev \<in> set (novosEventos (cycleOf e fetch st)). ev_espId ev = espId r \<longrightarrow> ev_ts ev = ts) \<and>
    ((\<forall>a \<in> set (automacoes st). espId a = espId r \<longrightarrow> a = r) \<longrightarrow>
       length (filter (\<lambda>ev. ev_espId ev = espId r) (novosEventos (cycleOf e fetch st))) = 1)"
proof -
  let ?flat = "extractPayloadMaps e payload"
  let ?nm = "strOr (name r) ''Automacao''"
  let ?txt = "strOr (name r) ''Automacao'' @ '' disparada: '' @
         optStrOr (metricKey r) ''valor'' @ '' > '' @ numberToString e th @
         '' (valor '' @ numberToString e (Fin v) @ '')''"
  have body: "evalRule e ts d ?flat r c = fire e ts d ?nm ?txt (ident r) c" for d c
    using rule val by (simp add: evalRule_def Let_def alertText_def)
  have rts: "readingTs e fetch (espId r) = ts"
    and rflat: "readingFlat e fetch (espId r) = ?flat"
    using reading by (simp_all add: readingTs_def readingFlat_def)
  have proc: "processed e fetch (lastSeen st) (espId r)"
    using reading rts by (simp add: processed_def)
  have fr: "fires e ts ?flat r"
    by (simp add: fires_def body)
  have target: "espId r \<in> set (espAlvos (automacoes st))"
    using member rule by (auto simp: set_espAlvos)
  have 1: "\<forall>c. evalRule e ts (espId r) ?flat r c =
      c\<lparr> novosEventos := novosEventos c @
            [\<lparr> ev_id = randomUUID e (drawn c), ev_ts = ts, ev_espId = espId r,
               ev_name = ?nm, ev_text = ?txt \<rparr>],
         updates := AList.update (ident r) ts (updates c),
         drawn := Suc (drawn c) \<rparr>"
    by (simp add: body fire_def)
  have 2: "map_of (updates (cycleOf e fetch st)) (ident r) = Some ts"
    using cycle_updates [OF ids member, of e fetch] rule proc fr rts rflat by simp
  have 3: "\<forall>i < length (automacoes st). automacoes st ! i = r \<longrightarrow>
       automacoes (evaluate e b fetch st) ! i = r\<lparr>lastTriggered := Some ts\<rparr>"
    using 2 by (simp add: evaluate_automacoes applyUpdates_def)
  have 4: "\<exists>ev \<in> set (novosEventos (cycleOf e fetch st)).
       ev_ts ev = ts \<and> ev_espId ev = espId r \<and> ev_name ev = ?nm \<and> ev_text ev = ?txt"
  proof -
    have p: "processed e fetch (seen (startCycle st)) (espId r)"
      using proc by simp
    have f: "evalRule e (readingTs e fetch (espId r)) (espId r)
          (readingFlat e fetch (espId r)) r c =
        fire e (readingTs e fetch (espId r)) (espId r) ?nm ?txt (ident r) c" for c
      unfolding rts rflat by (rule body)
    have en: "enabled r" by (rule rule(1))
    show ?thesis
      unfolding cycleOf_def
      using deviceLoop_emits [OF distinct_espAlvos target p member en refl f]
      by (simp add: rts)
  qed
  have 5: "length (filter (\<lambda>ev. ev_espId ev = espId r) (novosEventos (cycleOf e fetch st))) =
      length (filter (\<lambda>a. enabled a \<and> espId a = espId r \<and> fires e ts ?flat a) (automacoes st))"
    using cycle_events [of e fetch st] target proc rts rflat by auto
  have 6: "\<forall>ev \<in> set (novosEventos (cycleOf e fetch st)). ev_espId ev = espId r \<longrightarrow> ev_ts ev = ts"
    using cycle_event_devices [of _ e fetch st] rts by auto
  have 7: "(\<forall>a \<in> set (automacoes st). espId a = espId r \<longrightarrow> a = r) \<longrightarrow>
      length (filter (\<lambda>ev. ev_espId ev = espId r) (novosEventos (cycleOf e fetch st))) = 1"
  proof
    assume alone: "\<forall>a \<in> set (automacoes st). espId a = espId r \<longrightarrow> a = r"
    have "distinct (automacoes st)"
      using ids by (rule distinct_map [THEN iffD1, THEN conjunct1])
    then have "filter (\<lambda>a. enabled a \<and> espId a = espId r \<and> fires e ts ?flat a) (automacoes st) = [r]"
    proof (rule filter_only)
      show "r \<in> set (automacoes st)" by (rule member)
      show "enabled r \<and> espId r = espId r \<and> fires e ts ?flat r"
        using rule(1) fr by simp
      show "\<forall>a \<in> set (automacoes st).
          enabled a \<and> espId a = espId r \<and> fires e ts ?flat a \<longrightarrow> a = r"
        using alone by blast
    qed
    with 5 show "length (filter (\<lambda>ev. ev_espId ev = espId r)
        (novosEventos (cycleOf e fetch st))) = 1"
      by simp
  qed
  show ?thesis
    by (rule conjI [OF 1 conjI [OF 2 conjI [OF 3 conjI [OF 4 conjI [OF 5 conjI [OF 6 7]]]]]])
qed


text \<open>On the concrete page the alert on \<open>esp1\<close> sees 31 degrees against a threshold of 30.\<close>

theorem alert_gt_fires_witness:
  "evalRule demoEnv 64800000 ''esp1'' [(''data.temperatura'', 31)] hotRule emptyCycle =
     emptyCycle\<lparr> novosEventos :=
         [\<lparr> ev_id = ''uuid-0'', ev_ts = 64800000, ev_espId = ''esp1'', ev_name = ''Quente'',
            ev_text = ''Quente disparada: temperatura > 30 (valor 31)'' \<rparr>],
       updates := [(''r1'', 64800000)], drawn := 1 \<rparr> \<and>
   map_of (updates (cycleOf demoEnv demoFetch demoState)) ''r1'' = Some 64800000 \<and>
   automacoes (evaluate demoEnv demoBrowser demoFetch demoState) ! 0 =
     hotRule\<lparr>lastTriggered := Some 64800000\<rparr> \<and>
   length (filter (\<lambda>ev. ev_espId ev = ''esp1'')
     (novosEventos (cycleOf demoEnv demoFetch demoState))) = 1"
proof -
  let ?p = "(Some 64800000, [(''data.temperatura'', 31)]) :: demoReading"
  have rules: "automacoes demoState = [hotRule, eveningRule]"
    by (simp add: demoState_def)
  have member: "hotRule \<in> set (automacoes demoState)"
    by (simp add: rules)
  have ids: "distinct (map ident (automacoes demoState))"
    by (simp add: rules hotRule_def eveningRule_def)
  have rule: "enabled hotRule" "kind hotRule = Alert" "operador hotRule = Some Gt"
    "threshold hotRule = Some (Fin 30)" "espId hotRule \<noteq> []"
    by (simp_all add: hotRule_def)
  have dev: "espId hotRule = ''esp1''" and rid: "ident hotRule = ''r1''"
    and nm: "name hotRule = ''Quente''" and mk: "metricKey hotRule = Some ''temperatura''"
    by (simp_all add: hotRule_def)
  have reading: "demoFetch (espId hotRule) = Ok (Some ?p)"
    "64800000 = pickTimestamp demoEnv ?p 0" "(64800000::int) \<noteq> 0"
    "orZero (lastSeen demoState (espId hotRule)) < 64800000"
    by (simp_all add: dev demoFetch_def demoEnv_def demoState_def)
  have flat: "extractPayloadMaps demoEnv ?p = [(''data.temperatura'', 31)]"
    by (simp add: demoEnv_def)
  have val: "numericValue demoEnv (resolveMetricValue (normalizeKey demoEnv)
        (extractPayloadMaps demoEnv ?p) (metricKey hotRule)) = Fin 31"
    by (simp add: flat mk resolveMetricValue_def leafOf_def demoEnv_def)
  have gt: "num_gt (Fin 31) (Fin 30)"
    by (simp add: num_gt_def)
  note T = alert_gt_fires [where e = demoEnv and b = demoBrowser and fetch = demoFetch
      and st = demoState and r = hotRule and payload = "?p" and ts = 64800000
      and th = "Fin 30" and v = 31, OF member ids rule reading val gt, unfolded flat]
  have texts: "numberToString demoEnv (Fin 30) = ''30''" "numberToString demoEnv (Fin 31) = ''31''"
    "randomUUID demoEnv 0 = ''uuid-0''"
    by (simp_all add: demoEnv_def showInt_def digits.simps digitChar_def)
  have a: "evalRule demoEnv 64800000 ''esp1'' [(''data.temperatura'', 31)] hotRule emptyCycle =
     emptyCycle\<lparr> novosEventos :=
         [\<lparr> ev_id = ''uuid-0'', ev_ts = 64800000, ev_espId = ''esp1'', ev_name = ''Quente'',
            ev_text = ''Quente disparada: temperatura > 30 (valor 31)'' \<rparr>],
       updates := [(''r1'', 64800000)], drawn := 1 \<rparr>"
    using T [THEN conjunct1, rule_format, of emptyCycle]
    by (simp add: dev rid nm mk texts strOr_def emptyCycle_def)
  have b: "map_of (updates (cycleOf demoEnv demoFetch demoState)) ''r1'' = Some 64800000"
    using T [THEN conjunct2, THEN conjunct1] by (simp only: rid)
  have i0: "0 < length (automacoes demoState)" "automacoes demoState ! 0 = hotRule"
    by (simp_all add: rules)
  have c: "automacoes (evaluate demoEnv demoBrowser demoFetch demoState) ! 0 =
     hotRule\<lparr>lastTriggered := Some 64800000\<rparr>"
    using T [THEN conjunct2, THEN conjunct2, THEN conjunct1, rule_format, OF i0] .
  have alone: "\<forall>a \<in> set (automacoes demoState). espId a = espId hotRule \<longrightarrow> a = hotRule"
    by (simp add: rules hotRule_def eveningRule_def)
  have d: "length (filter (\<lambda>ev. ev_espId ev = ''esp1'')
     (novosEventos (cycleOf demoEnv demoFetch demoState))) = 1"
    using T [THEN conjunct2, THEN conjunct2, THEN conjunct2, THEN conjunct2, THEN conjunct2,
        THEN conjunct2, THEN mp, OF alone]
    by (simp only: dev)
  from a b c d show ?thesis by blast
qed

section \<open>Schedule rules\<close>

lemma evalRule_schedule:
  assumes "kind r = Schedule" and "schedule r = Some s"
  shows "evalRule e ts d flat r c =
     (if getHours e ts = hh s \<and> getMinutes e ts = mm s \<and>
         (lastTriggered r = None \<or> lastTriggered r = Some 0 \<or>
          (\<exists>p. lastTriggered r = Some p \<and> 60000 < ts - p))
      then fire e ts d (strOr (name r) ''Agendamento'')
             (strOr (name r) ''Agendamento'' @ '' executado as '' @ formatClock e ts) (ident r) c
      else c)"
proof (cases "lastTriggered r")
  case None
  with assms show ?thesis by (simp add: evalRule_def scheduleText_def)
next
  case (Some p)
  with assms show ?thesis by (simp add: evalRule_def scheduleText_def)
qed

lemma fires_schedule:
  assumes "kind r = Schedule" and "schedule r = Some s"
  shows "fires e ts flat r \<longleftrightarrow>
     getHours e ts = hh s \<and> getMinutes e ts = mm s \<and>
     (lastTriggered r = None \<or> lastTriggered r = Some 0 \<or>
      (\<exists>p. lastTriggered r = Some p \<and> 60000 < ts - p))"
  unfolding fires_def evalRule_schedule [OF assms] by (auto simp: emptyCycle_def)

text \<open>
  The claim C1 as it is worded fails at the boundary and in its last clause. A schedule at
  18:00 whose last trigger lies exactly 60,000 ms before a reading taken at 18:00:00 meets
  the worded condition, and does not fire. The same schedule, having fired at 18:00:00 of one
  day, fires again on the reading taken at 18:00:00 of the next day, which is more than 61
  seconds later and at the same hour and minute.
\<close>

theorem schedule_debounce_counterexample:
  "claimedScheduleFires demoEnv 64800000 (eveningRule\<lparr>lastTriggered := Some 64740000\<rparr>) \<and>
   \<not> fires demoEnv 64800000 [] (eveningRule\<lparr>lastTriggered := Some 64740000\<rparr>) \<and>
   (64800000::int) + 61000 \<le> 151200000 \<and>
   getHours demoEnv 151200000 = 18 \<and> getMinutes demoEnv 151200000 = 0 \<and>
   fires demoEnv 151200000 [] firedEvening"
  by (simp add: claimedScheduleFires_def fires_def evalRule_def emptyCycle_def fire_def
        firedEvening_def eveningRule_def demoEnv_def utcHours_def utcMinutes_def)


text \<open>
  Claim C1, amended. Take an enabled schedule rule with a schedule, among rules with distinct
  identifiers, whose device answers with a reading that the cycle processes. The rule fires on
  the reading exactly when the local hour and minute of its timestamp equal those of the
  schedule and the rule has no prior trigger (\<open>lastTriggered\<close> absent or 0) or more than
  60,000 ms lie between the prior trigger and the reading. The run of \<^verbatim>\<open>evaluate\<close>
  records the timestamp for the rule and sets its \<open>lastTriggered\<close> exactly in that case, and
  then emits the event of the schedule; otherwise the entry of the rule stays. So a reading
  at most 60,000 ms after a trigger does not fire, and a reading more than 60,000 ms after it
  at the hour and minute of the schedule does.
\<close>

theorem schedule_fires_iff:
  fixes e :: "('r, 'v) env" and b :: browser
  assumes member: "r \<in> set (automacoes st)"
    and ids: "distinct (map ident (automacoes st))"
    and rule: "enabled r" "kind r = Schedule" "schedule r = Some s" "espId r \<noteq> []"
    and reading: "fetch (espId r) = Ok (Some payload)" "ts = pickTimestamp e payload 0"
      "ts \<noteq> 0" "orZero (lastSeen st (espId r)) < ts"
  shows
   "(fires e ts (extractPayloadMaps e payload) r \<longleftrightarrow>
       getHours e ts = hh s \<and> getMinutes e ts = mm s \<and>
       (lastTriggered r = None \<or> lastTriggered r = Some 0 \<or>
        (\<exists>p. lastTriggered r = Some p \<and> 60000 < ts - p))) \<and>
    map_of (updates (cycleOf e fetch st)) (ident r) =
      (if fires e ts (extractPayloadMaps e payload) r then Some ts else None) \<and>
    (\<forall>i < length (automacoes st). automacoes st ! i = r \<longrightarrow>
       automacoes (evaluate e b fetch st) ! i =
         (if fires e ts (extractPayloadMaps e payload) r then r\<lparr>lastTriggered := Some ts\<rparr>
          else r)) \<and>
    (fires e ts (extractPayloadMaps e payload) r \<longrightarrow>
       (\<exists>ev \<in> set (novosEventos (cycleOf e fetch st)).
          ev_ts ev = ts \<and> ev_espId ev = espId r \<and> ev_name ev = strOr (name r) ''Agendamento'' \<and>
          ev_text ev = strOr (name r) ''Agendamento'' @ '' executado as '' @ formatClock e ts)) \<and>
    (\<forall>p. lastTriggered r = Some p \<and> p \<noteq> 0 \<and> ts - p \<le> 60000 \<longrightarrow>
       \<not> fires e ts (extractPayloadMaps e payload) r) \<and>
    (\<forall>p. lastTriggered r = Some p \<and> 60000 < ts - p \<and>
         getHours e ts = hh s \<and> getMinutes e ts = mm s \<longrightarrow>
       fires e ts (extractPayloadMaps e payload) r)"
proof -
  let ?flat = "extractPayloadMaps e payload"
  let ?nm = "strOr (name r) ''Agendamento''"
  let ?txt = "strOr (name r) ''Agendamento'' @ '' executado as '' @ formatClock e ts"
  note body = evalRule_schedule [OF rule(2,3)]
  have rts: "readingTs e fetch (espId r) = ts"
    and rflat: "readingFlat e fetch (espId r) = ?flat"
    using reading by (simp_all add: readingTs_def readingFlat_def)
  have proc: "processed e fetch (lastSeen st) (espId r)"
    using reading rts by (simp add: processed_def)
  have target: "espId r \<in> set (espAlvos (automacoes st))"
    using member rule by (auto simp: set_espAlvos)
  have en: "enabled r" by (rule rule(1))
  have 1: "fires e ts ?flat r \<longleftrightarrow>
       getHours e ts = hh s \<and> getMinutes e ts = mm s \<and>
       (lastTriggered r = None \<or> lastTriggered r = Some 0 \<or>
        (\<exists>p. lastTriggered r = Some p \<and> 60000 < ts - p))"
    by (rule fires_schedule [OF rule(2,3)])
  have 2: "map_of (updates (cycleOf e fetch st)) (ident r) =
      (if fires e ts ?flat r then Some ts else None)"
    using cycle_updates [OF ids member, of e fetch] en rule(4) proc rts rflat by simp
  have 3: "\<forall>i < length (automacoes st). automacoes st ! i = r \<longrightarrow>
       automacoes (evaluate e b fetch st) ! i =
         (if fires e ts ?flat r then r\<lparr>lastTriggered := Some ts\<rparr> else r)"
    using 2 by (simp add: evaluate_automacoes applyUpdates_def)
  have 4: "fires e ts ?flat r \<longrightarrow>
       (\<exists>ev \<in> set (novosEventos (cycleOf e fetch st)).
          ev_ts ev = ts \<and> ev_espId ev = espId r \<and> ev_name ev = ?nm \<and> ev_text ev = ?txt)"
  proof
    assume fr: "fires e ts ?flat r"
    have p: "processed e fetch (seen (startCycle st)) (espId r)"
      using proc by simp
    have f: "evalRule e (readingTs e fetch (espId r)) (espId r)
          (readingFlat e fetch (espId r)) r c =
        fire e (readingTs e fetch (espId r)) (espId r) ?nm ?txt (ident r) c" for c
    proof -
      from fr 1 have "getHours e ts = hh s \<and> getMinutes e ts = mm s \<and>
         (lastTriggered r = None \<or> lastTriggered r = Some 0 \<or>
          (\<exists>p. lastTriggered r = Some p \<and> 60000 < ts - p))"
        by (rule rev_iffD1)
      then have "evalRule e ts (espId r) ?flat r c = fire e ts (espId r) ?nm ?txt (ident r) c"
        unfolding body by (rule if_P)
      then show ?thesis unfolding rts rflat .
    qed
    show "\<exists>ev \<in> set (novosEventos (cycleOf e fetch st)).
          ev_ts ev = ts \<and> ev_espId ev = espId r \<and> ev_name ev = ?nm \<and> ev_text ev = ?txt"
      unfolding cycleOf_def
      using deviceLoop_emits [OF distinct_espAlvos target p member en refl f]
      by (simp add: rts)
  qed
  have 5: "\<forall>p. lastTriggered r = Some p \<and> p \<noteq> 0 \<and> ts - p \<le> 60000 \<longrightarrow> \<not> fires e ts ?flat r"
    unfolding 1 by auto
  have 6: "\<forall>p. lastTriggered r = Some p \<and> 60000 < ts - p \<and>
         getHours e ts = hh s \<and> getMinutes e ts = mm s \<longrightarrow> fires e ts ?flat r"
    unfolding 1 by auto
  show ?thesis
    by (rule conjI [OF 1 conjI [OF 2 conjI [OF 3 conjI [OF 4 conjI [OF 5 6]]]]])
qed


text \<open>The schedule of the concrete page fires at 18:00:00 of the first day; polled again 30
  seconds later it stays as it is; polled at 18:00:00 of the next day it fires again.\<close>

theorem schedule_fires_iff_witness:
  "automacoes (evaluate demoEnv demoBrowser demoFetch demoState) ! 1 = firedEvening \<and>
   automacoes (evaluate demoEnv demoBrowser (fetchAt 64830000) demoFiredState) ! 1 =
     firedEvening \<and>
   automacoes (evaluate demoEnv demoBrowser (fetchAt 151200000) demoFiredState) ! 1 =
     firedEvening\<lparr>lastTriggered := Some 151200000\<rparr>"
proof -
  let ?s = "\<lparr> hh = 18, mm = 0 \<rparr>"
  have clock: "getHours demoEnv 64800000 = 18" "getMinutes demoEnv 64800000 = 0"
    "getHours demoEnv 64830000 = 18" "getMinutes demoEnv 64830000 = 0"
    "getHours demoEnv 151200000 = 18" "getMinutes demoEnv 151200000 = 0"
    by (simp_all add: demoEnv_def utcHours_def utcMinutes_def)
  have pick: "pickTimestamp demoEnv (Some t, fl) 0 = t" for t and fl :: "(string \<times> int) list"
    by (simp add: demoEnv_def)

  have rules1: "automacoes demoState = [hotRule, eveningRule]"
    by (simp add: demoState_def)
  have m1: "eveningRule \<in> set (automacoes demoState)"
    and d1: "distinct (map ident (automacoes demoState))"
    and i1: "1 < length (automacoes demoState)" "automacoes demoState ! 1 = eveningRule"
    by (simp_all add: rules1 hotRule_def eveningRule_def)
  have r1: "enabled eveningRule" "kind eveningRule = Schedule" "schedule eveningRule = Some ?s"
    "espId eveningRule \<noteq> []"
    by (simp_all add: eveningRule_def)
  have f1: "demoFetch (espId eveningRule) = Ok (Some (Some 64800000, []))"
    "64800000 = pickTimestamp demoEnv (Some 64800000, []) 0" "(64800000::int) \<noteq> 0"
    "orZero (lastSeen demoState (espId eveningRule)) < 64800000"
    by (simp_all add: eveningRule_def demoFetch_def demoState_def pick)
  note T1 = schedule_fires_iff [where e = demoEnv and b = demoBrowser and fetch = demoFetch
      and st = demoState and r = eveningRule and s = "?s" and payload = "(Some 64800000, [])"
      and ts = 64800000, OF m1 d1 r1 f1]
  have c1: "getHours demoEnv 64800000 = hh ?s \<and> getMinutes demoEnv 64800000 = mm ?s \<and>
      (lastTriggered eveningRule = None \<or> lastTriggered eveningRule = Some 0 \<or>
       (\<exists>p. lastTriggered eveningRule = Some p \<and> 60000 < 64800000 - p))"
    by (simp add: clock eveningRule_def)
  have fires1: "fires demoEnv 64800000 (extractPayloadMaps demoEnv (Some 64800000, [])) eveningRule"
    using T1 [THEN conjunct1] c1 by (rule iffD2)
  have a: "automacoes (evaluate demoEnv demoBrowser demoFetch demoState) ! 1 = firedEvening"
    using T1 [THEN conjunct2, THEN conjunct2, THEN conjunct1, rule_format, OF i1] fires1
    by (simp add: firedEvening_def)

  have rules2: "automacoes demoFiredState = [hotRule, firedEvening]"
    by (simp add: demoFiredState_def)
  have m2: "firedEvening \<in> set (automacoes demoFiredState)"
    and d2: "distinct (map ident (automacoes demoFiredState))"
    and i2: "1 < length (automacoes demoFiredState)" "automacoes demoFiredState ! 1 = firedEvening"
    by (simp_all add: rules2 hotRule_def eveningRule_def firedEvening_def)
  have r2: "enabled firedEvening" "kind firedEvening = Schedule" "schedule firedEvening = Some ?s"
    "espId firedEvening \<noteq> []"
    by (simp_all add: firedEvening_def eveningRule_def)
  have last2: "lastTriggered firedEvening = Some 64800000"
    by (simp add: firedEvening_def)
  have f2: "fetchAt t (espId firedEvening) = Ok (Some (Some t, []))" for t
    by (simp add: fetchAt_def firedEvening_def eveningRule_def)
  have seen2: "orZero (lastSeen demoFiredState (espId firedEvening)) = 64800000"
    by (simp add: demoFiredState_def firedEvening_def eveningRule_def)

  have g2: "64830000 = pickTimestamp demoEnv (Some 64830000, []) 0" "(64830000::int) \<noteq> 0"
    "orZero (lastSeen demoFiredState (espId firedEvening)) < 64830000"
    by (simp_all add: pick seen2)
  note T2 = schedule_fires_iff [where e = demoEnv and b = demoBrowser
      and fetch = "fetchAt 64830000" and st = demoFiredState and r = firedEvening and s = "?s"
      and payload = "(Some 64830000, [])" and ts = 64830000, OF m2 d2 r2 f2 g2]
  have c2: "lastTriggered firedEvening = Some 64800000 \<and> (64800000::int) \<noteq> 0 \<and>
      (64830000::int) - 64800000 \<le> 60000"
    by (simp add: last2)
  have quiet: "\<not> fires demoEnv 64830000 (extractPayloadMaps demoEnv (Some 64830000, [])) firedEvening"
    using T2 [THEN conjunct2, THEN conjunct2, THEN conjunct2, THEN conjunct2, THEN conjunct1,
        rule_format, OF c2] .
  have b: "automacoes (evaluate demoEnv demoBrowser (fetchAt 64830000) demoFiredState) ! 1 =
      firedEvening"
    using T2 [THEN conjunct2, THEN conjunct2, THEN conjunct1, rule_format, OF i2] quiet
    by simp

  have g3: "151200000 = pickTimestamp demoEnv (Some 151200000, []) 0" "(151200000::int) \<noteq> 0"
    "orZero (lastSeen demoFiredState (espId firedEvening)) < 151200000"
    by (simp_all add: pick seen2)
  note T3 = schedule_fires_iff [where e = demoEnv and b = demoBrowser
      and fetch = "fetchAt 151200000" and st = demoFiredState and r = firedEvening and s = "?s"
      and payload = "(Some 151200000, [])" and ts = 151200000, OF m2 d2 r2 f2 g3]
  have c3: "lastTriggered firedEvening = Some 64800000 \<and> (60000::int) < 151200000 - 64800000 \<and>
      getHours demoEnv 151200000 = hh ?s \<and> getMinutes demoEnv 151200000 = mm ?s"
    by (simp add: last2 clock)
  have again: "fires demoEnv 151200000 (extractPayloadMaps demoEnv (Some 151200000, [])) firedEvening"
    using T3 [THEN conjunct2, THEN conjunct2, THEN conjunct2, THEN conjunct2, THEN conjunct2,
        rule_format, OF c3] .
  have c: "automacoes (evaluate demoEnv demoBrowser (fetchAt 151200000) demoFiredState) ! 1 =
      firedEvening\<lparr>lastTriggered := Some 151200000\<rparr>"
    using T3 [THEN conjunct2, THEN conjunct2, THEN conjunct1, rule_format, OF i2] again
    by simp
  from a b c show ?thesis by blast
qed

end
